theory Spec2Isabelle
  imports Main "HOL-Library.AList"
begin

section \<open>JavaScript values and objects\<close>

text \<open>
  The component of \<^verbatim>\<open>packages/fiber/src/web/Canvas.tsx\<close> is untyped at run time: its
  tests \<^verbatim>\<open>if (block)\<close>, \<^verbatim>\<open>if (error)\<close>, \<^verbatim>\<open>!intersect\<close> and \<^verbatim>\<open>events || ...\<close> go by
  truthiness, and the dependency lists of its effects are compared with \<^verbatim>\<open>Object.is\<close>.
  Values are therefore a datatype of their own. Objects and functions that come from
  outside are references (\<open>JObj\<close>), so that HOL equality on them is identity, as
  \<^verbatim>\<open>Object.is\<close> is; numbers are integers (no \<^verbatim>\<open>NaN\<close>).
\<close>

type_synonym key = string

datatype promise_state = Pending | Fulfilled | Rejected

datatype jsval =
    JUndefined
  | JNull
  | JBool bool
  | JNum int
  | JStr string
  | JObj nat
  | JImport string
  | JElem string
  | JPromise nat promise_state
  | JLit "(string \<times> jsval) list"

text \<open>
  \<open>JImport\<close> is a module-level binding the file imports (\<^verbatim>\<open>createPointerEvents\<close>),
  \<open>JElem\<close> a DOM element created by the component's own markup, \<open>JPromise\<close> a promise
  with its identity and state, \<open>JLit\<close> an object literal written in the file.
  An object is the list of its own properties in insertion order.
\<close>

type_synonym object = "(key \<times> jsval) list"

fun truthy :: "jsval \<Rightarrow> bool" where
  "truthy JUndefined = False"
| "truthy JNull = False"
| "truthy (JBool b) = b"
| "truthy (JNum n) = (n \<noteq> 0)"
| "truthy (JStr s) = (s \<noteq> [])"
| "truthy (JObj r) = True"
| "truthy (JImport n) = True"
| "truthy (JElem n) = True"
| "truthy (JPromise a st) = True"
| "truthy (JLit ps) = True"

text \<open>Reading a property: a missing one is \<^verbatim>\<open>undefined\<close>.\<close>

definition get :: "object \<Rightarrow> key \<Rightarrow> jsval" where
  "get obj k = (case map_of obj k of Some v \<Rightarrow> v | None \<Rightarrow> JUndefined)"

text \<open>
  \<^verbatim>\<open>{ ...base, ...v }\<close>: the own properties of \<open>v\<close> are written over \<open>base\<close>, in order;
  spreading \<^verbatim>\<open>undefined\<close> or \<^verbatim>\<open>null\<close> adds nothing.
\<close>

definition spread :: "object \<Rightarrow> jsval \<Rightarrow> object" where
  "spread base v =
     (case v of JLit ps \<Rightarrow> foldl (\<lambda>acc kv. AList.update (fst kv) (snd kv) acc) base ps
              | _ \<Rightarrow> base)"

text \<open>
  \<^verbatim>\<open>new Promise(executor)\<close>: the promise is settled by the first call the executor makes
  to one of its two arguments, and stays pending when it makes none and keeps neither.
\<close>

datatype executor_call = CallResolve | CallReject

fun new_Promise :: "nat \<Rightarrow> executor_call list \<Rightarrow> jsval" where
  "new_Promise a [] = JPromise a Pending"
| "new_Promise a (CallResolve # cs) = JPromise a Fulfilled"
| "new_Promise a (CallReject # cs) = JPromise a Rejected"

section \<open>The allow-list and the split of the attributes\<close>

definition CANVAS_PROPS :: "key list" where
  "CANVAS_PROPS =
     [''gl'', ''events'', ''size'', ''shadows'', ''linear'', ''flat'', ''orthographic'',
      ''frameloop'', ''dpr'', ''performance'', ''clock'', ''raycaster'', ''camera'',
      ''onPointerMissed'', ''onCreated'']"

text \<open>
  lodash's \<^verbatim>\<open>pick(object, paths)\<close> walks the paths in their order and copies each one the
  object has; \<^verbatim>\<open>omit(object, paths)\<close> copies the object and removes the paths. No key of
  the allow-list is a deep path.
\<close>

definition pick :: "object \<Rightarrow> key list \<Rightarrow> object" where
  "pick obj paths =
     List.map_filter (\<lambda>k. case map_of obj k of Some v \<Rightarrow> Some (k, v) | None \<Rightarrow> None) paths"

definition omit :: "object \<Rightarrow> key list \<Rightarrow> object" where
  "omit obj paths = filter (\<lambda>kv. fst kv \<notin> set paths) obj"

text \<open>
  The parameter list \<^verbatim>\<open>{ children, fallback, resize, style, events, intersect, frameloop,
  ...props }\<close>: the named options are taken out, \<open>rest_props\<close> is what \<^verbatim>\<open>...props\<close> binds.
\<close>

definition destructured :: "key list" where
  "destructured =
     [''children'', ''fallback'', ''resize'', ''style'', ''events'', ''intersect'', ''frameloop'']"

definition rest_props :: "object \<Rightarrow> object" where
  "rest_props ps = filter (\<lambda>kv. fst kv \<notin> set destructured) ps"

section \<open>The render bridge\<close>

text \<open>
  \<^verbatim>\<open>render\<close> and \<^verbatim>\<open>unmountComponentAtNode\<close> are imported from \<^verbatim>\<open>./index\<close>; the component
  only calls them. A call is recorded with its arguments: for \<open>Render\<close> the child tree
  (which the call wraps in \<^verbatim>\<open>ErrorBoundary\<close> and \<^verbatim>\<open>Suspense\<close> with the \<^verbatim>\<open>Block\<close> fallback),
  the container and the options.
\<close>

datatype call =
    Render jsval jsval object
  | UnmountComponentAtNode jsval

definition createPointerEvents :: jsval where
  "createPointerEvents = JImport ''createPointerEvents''"

section \<open>The component instance\<close>

text \<open>
  One mounted \<^verbatim>\<open>Canvas\<close>: the props last passed by the parent, the state hooks
  (\<open>width\<close>, \<open>height\<close> from \<^verbatim>\<open>useMeasure\<close>; \<open>block\<close>, \<open>error\<close>, \<open>visible\<close> from
  \<^verbatim>\<open>useState\<close>), the ref, what the three effects remember from their last run (the
  dependency values, the container captured by the unmount cleanup, whether an
  \<^verbatim>\<open>IntersectionObserver\<close> is connected), a counter for fresh object identities, the state
  of the tree mounted through the bridge (\<^verbatim>\<open>ErrorBoundary.state.error\<close>, whether
  \<^verbatim>\<open>Suspense\<close> shows its \<^verbatim>\<open>Block\<close> fallback, whether a tree is mounted at all) and the
  calls made to the bridge so far.
\<close>

record "instance" =
  alive :: bool
  props :: object
  width :: int
  height :: int
  block :: jsval
  error :: jsval
  visible :: bool
  canvasRef :: jsval
  render_deps :: "(int \<times> int \<times> jsval \<times> nat \<times> bool) option"
  unmount_container :: "jsval option"
  observer_deps :: "jsval option"
  observing :: bool
  heap :: nat
  boundary_error :: bool
  block_shown :: bool
  rendered :: bool
  calls :: "call list"

text \<open>What an evaluation that completes hands to the commit.\<close>

record view =
  canvasProps :: object
  canvasProps_ref :: nat
  divProps :: object
  div_style :: object
  canvas_fallback :: jsval

definition base_style :: object where
  "base_style =
     [(''position'', JStr ''relative''), (''width'', JStr ''100%''),
      (''height'', JStr ''100%''), (''overflow'', JStr ''hidden'')]"

text \<open>
  The body of \<^verbatim>\<open>Canvas\<close> (lines 68 to 131). \<open>Inl\<close> is a thrown value: the pending token
  first, then the stored failure. \<^verbatim>\<open>pick\<close> returns a new object at every evaluation; its
  identity is the next free one.
\<close>

definition Canvas :: "object \<Rightarrow> instance \<Rightarrow> jsval + view" where
  "Canvas ps s =
     (let rest = rest_props ps;
          cp = pick rest CANVAS_PROPS;
          dp = omit rest CANVAS_PROPS
      in if truthy (block s) then Inl (block s)
         else if truthy (error s) then Inl (error s)
         else Inr \<lparr>canvasProps = cp, canvasProps_ref = heap s, divProps = dp,
                   div_style = spread base_style (get ps ''style''),
                   canvas_fallback = get ps ''fallback''\<rparr>)"

definition shouldRender :: "object \<Rightarrow> bool \<Rightarrow> bool" where
  "shouldRender ps vis = (\<not> truthy (get ps ''intersect'') \<or> vis)"

text \<open>The options literal of the \<^verbatim>\<open>render\<close> call (lines 95 to 100).\<close>

definition mount_options :: "object \<Rightarrow> object \<Rightarrow> int \<Rightarrow> int \<Rightarrow> bool \<Rightarrow> object" where
  "mount_options ps cp w h vis =
     AList.update ''frameloop''
       (if shouldRender ps vis then get ps ''frameloop'' else JStr ''never'')
       (AList.update ''events''
          (if truthy (get ps ''events'') then get ps ''events'' else createPointerEvents)
          (AList.update ''size'' (JLit [(''width'', JNum w), (''height'', JNum h)]) cp))"

text \<open>The layout effect (lines 86 to 102), with the values its closure holds.\<close>

definition render_effect :: "object \<Rightarrow> view \<Rightarrow> instance \<Rightarrow> instance" where
  "render_effect ps v s =
     (if 0 < width s \<and> 0 < height s
      then s\<lparr>calls := calls s @
                [Render (get ps ''children'') (canvasRef s)
                   (mount_options ps (canvasProps v) (width s) (height s) (visible s))],
             rendered := True\<rparr>
      else s)"

text \<open>The observer effect (lines 111 to 119) and its cleanup.\<close>

definition observer_effect :: "object \<Rightarrow> instance \<Rightarrow> instance" where
  "observer_effect ps s =
     (if \<not> truthy (canvasRef s) \<or> \<not> truthy (get ps ''intersect'') then s
      else s\<lparr>observing := True\<rparr>)"

definition observer_cleanup :: "instance \<Rightarrow> instance" where
  "observer_cleanup s = s\<lparr>observing := False\<rparr>"

text \<open>
  The observer's callback \<^verbatim>\<open>([entry]) => setVisible(entry.isIntersecting)\<close> takes the first
  entry of the batch; an entry is its \<^verbatim>\<open>isIntersecting\<close> flag. On an empty batch the read
  of \<^verbatim>\<open>entry.isIntersecting\<close> raises.
\<close>

datatype js_error = TypeError

fun observer_callback :: "bool list \<Rightarrow> js_error + bool" where
  "observer_callback [] = Inl TypeError"
| "observer_callback (entry # entries) = Inr entry"

section \<open>Commit and re-evaluation\<close>

text \<open>
  After an evaluation that completes, the refs are attached and each effect runs if it
  has not run yet or if a value of its dependency list differs from the one of its last
  run: \<^verbatim>\<open>[width, height, children, canvasProps, visible]\<close> for the layout effect, \<^verbatim>\<open>[]\<close>
  for the unmount effect, \<^verbatim>\<open>[intersect]\<close> for the observer effect, whose previous cleanup
  runs first.
\<close>

definition commit :: "object \<Rightarrow> view \<Rightarrow> instance \<Rightarrow> instance" where
  "commit ps v s0 =
     (let s1 = s0\<lparr>canvasRef := JElem ''canvas''\<rparr>;
          d = (width s1, height s1, get ps ''children'', canvasProps_ref v, visible s1);
          s2 = (if render_deps s1 = Some d then s1
                else render_effect ps v (s1\<lparr>render_deps := Some d\<rparr>));
          s3 = (case unmount_container s2 of
                  None \<Rightarrow> s2\<lparr>unmount_container := Some (canvasRef s2)\<rparr>
                | Some c \<Rightarrow> s2)
      in if observer_deps s3 = Some (get ps ''intersect'') then s3
         else observer_effect ps
                (observer_cleanup (s3\<lparr>observer_deps := Some (get ps ''intersect'')\<rparr>)))"

text \<open>
  One evaluation of the component with the props and state it has. A thrown value
  commits nothing: the effects of the last commit stay as they are.
\<close>

definition rerender :: "instance \<Rightarrow> instance" where
  "rerender s =
     (case Canvas (props s) s of
        Inl thrown \<Rightarrow> s\<lparr>heap := Suc (heap s)\<rparr>
      | Inr v \<Rightarrow> commit (props s) v (s\<lparr>heap := Suc (heap s)\<rparr>))"

text \<open>
  A state setter schedules an evaluation only if it changed a state value
  (\<^verbatim>\<open>Object.is\<close>); setters called in the same commit are batched.
\<close>

definition hook_state :: "instance \<Rightarrow> int \<times> int \<times> jsval \<times> jsval \<times> bool" where
  "hook_state s = (width s, height s, block s, error s, visible s)"

definition schedule :: "instance \<Rightarrow> instance \<Rightarrow> instance" where
  "schedule s s' = (if hook_state s' = hook_state s then s' else rerender s')"

text \<open>
  Modelled from the spec: \<^verbatim>\<open>useMeasure\<close> (package react-use-measure) is not in the
  source. The spec has the size, a "(width, height) pair, updated by the size observer",
  start as a "zero initial size", and has the observer trigger the component "whenever
  reported size changes": a report sets the measured size as a state setter does, so one
  that repeats it changes no state.
\<close>

definition useMeasure_initial :: "int \<times> int" where
  "useMeasure_initial = (0, 0)"

definition useMeasure_report :: "int \<Rightarrow> int \<Rightarrow> instance \<Rightarrow> instance" where
  "useMeasure_report w h s = s\<lparr>width := w, height := h\<rparr>"

text \<open>The first evaluation of a new instance: no pending token, no failure, not visible.\<close>

definition mount_component :: "object \<Rightarrow> instance" where
  "mount_component ps =
     rerender \<lparr>alive = True, props = ps,
               width = fst useMeasure_initial, height = snd useMeasure_initial,
               block = JBool False, error = JBool False, visible = False,
               canvasRef = JNull, render_deps = None, unmount_container = None,
               observer_deps = None, observing = False, heap = 0,
               boundary_error = False, block_shown = False, rendered = False,
               calls = []\<rparr>"

section \<open>What can happen to a mounted instance\<close>

datatype event =
    Resize int int
  | Intersection "bool list"
  | SetProps object
  | Suspend
  | Resume
  | ChildThrows jsval
  | Teardown

text \<open>
  \<^item> \<open>Resize w h\<close>: the size observer reports a size.
  \<^item> \<open>Intersection entries\<close>: the connected observer delivers a batch.
  \<^item> \<open>SetProps ps\<close>: the parent evaluates the component with the props \<open>ps\<close>.
  \<^item> \<open>Suspend\<close>: a child is not ready, \<^verbatim>\<open>Suspense\<close> displays \<^verbatim>\<open>Block\<close>, whose layout effect
    (lines 50 to 53) calls \<^verbatim>\<open>set(new Promise(() => null))\<close>.
  \<^item> \<open>Resume\<close>: the fallback is removed and the cleanup of \<^verbatim>\<open>Block\<close> calls \<^verbatim>\<open>set(false)\<close>.
  \<^item> \<open>ChildThrows e\<close>: a child throws \<open>e\<close> while the tree is built. \<^verbatim>\<open>ErrorBoundary\<close>
    (lines 57 to 66) takes the state \<^verbatim>\<open>{ error: true }\<close> and renders \<^verbatim>\<open>null\<close>, which removes
    \<^verbatim>\<open>Suspense\<close> and a displayed \<^verbatim>\<open>Block\<close> with it; \<^verbatim>\<open>componentDidCatch\<close> calls \<^verbatim>\<open>set(error)\<close>.
  \<^item> \<open>Teardown\<close>: the component is unmounted; the cleanups of its effects run, and no
    later setter reaches it.
\<close>

definition Block_effect :: "instance \<Rightarrow> instance" where
  "Block_effect s = s\<lparr>block := new_Promise (heap s) [], heap := Suc (heap s)\<rparr>"

definition Block_cleanup :: "instance \<Rightarrow> instance" where
  "Block_cleanup s = s\<lparr>block := JBool False\<rparr>"

definition componentDidCatch :: "jsval \<Rightarrow> instance \<Rightarrow> instance" where
  "componentDidCatch e s = s\<lparr>error := e\<rparr>"

definition unmount_cleanup :: "instance \<Rightarrow> instance" where
  "unmount_cleanup s =
     (case unmount_container s of
        None \<Rightarrow> s
      | Some container \<Rightarrow>
          s\<lparr>calls := calls s @ [UnmountComponentAtNode container],
            rendered := False, block_shown := False\<rparr>)"

fun step :: "instance \<Rightarrow> event \<Rightarrow> instance" where
  "step s (Resize w h) =
     (if alive s then schedule s (useMeasure_report w h s) else s)"
| "step s (Intersection entries) =
     (if alive s \<and> observing s
      then (case observer_callback entries of
              Inl err \<Rightarrow> s
            | Inr b \<Rightarrow> schedule s (s\<lparr>visible := b\<rparr>))
      else s)"
| "step s (SetProps ps) =
     (if alive s then rerender (s\<lparr>props := ps\<rparr>) else s)"
| "step s Suspend =
     (if alive s \<and> rendered s \<and> \<not> boundary_error s \<and> \<not> block_shown s
      then schedule s (Block_effect (s\<lparr>block_shown := True\<rparr>))
      else s)"
| "step s Resume =
     (if alive s \<and> block_shown s
      then schedule s (Block_cleanup (s\<lparr>block_shown := False\<rparr>))
      else s)"
| "step s (ChildThrows e) =
     (if alive s \<and> rendered s \<and> \<not> boundary_error s
      then schedule s
             (componentDidCatch e
                ((if block_shown s then Block_cleanup else id)
                   (s\<lparr>boundary_error := True, block_shown := False\<rparr>)))
      else s)"
| "step s Teardown =
     (if alive s
      then (observer_cleanup (unmount_cleanup s))\<lparr>alive := False\<rparr>
      else s)"

definition run :: "instance \<Rightarrow> event list \<Rightarrow> instance" where
  "run s es = foldl step s es"

section \<open>Notions used to state the properties\<close>

text \<open>An evaluation completes when neither \<^verbatim>\<open>if (block) throw block\<close> nor
  \<^verbatim>\<open>if (error) throw error\<close> fires.\<close>

definition completes :: "instance \<Rightarrow> bool" where
  "completes s = (\<not> truthy (block s) \<and> \<not> truthy (error s))"

text \<open>The \<^verbatim>\<open>render\<close> call the layout effect makes from the props and state of \<open>s\<close>.\<close>

definition mount_call :: "instance \<Rightarrow> call" where
  "mount_call s =
     Render (get (props s) ''children'') (JElem ''canvas'')
       (mount_options (props s) (pick (rest_props (props s)) CANVAS_PROPS)
          (width s) (height s) (visible s))"

text \<open>Whether an evaluation of \<open>s\<close> ends in a \<^verbatim>\<open>render\<close> call: it completes, the
  dependency list differs from the remembered one, and the size passes the guard.\<close>

definition fires :: "instance \<Rightarrow> bool" where
  "fires s = (completes s \<and> 0 < width s \<and> 0 < height s \<and>
     render_deps s \<noteq> Some (width s, height s, get (props s) ''children'', heap s, visible s))"

fun is_pending :: "jsval \<Rightarrow> bool" where
  "is_pending (JPromise a Pending) = True"
| "is_pending v = False"

fun is_mount :: "call \<Rightarrow> bool" where
  "is_mount (Render tree container options) = True"
| "is_mount (UnmountComponentAtNode container) = False"

fun is_unmount :: "call \<Rightarrow> bool" where
  "is_unmount (Render tree container options) = False"
| "is_unmount (UnmountComponentAtNode container) = True"

text \<open>An option of a \<^verbatim>\<open>render\<close> call, by key.\<close>

fun call_option :: "call \<Rightarrow> key \<Rightarrow> jsval option" where
  "call_option (Render tree container options) k = map_of options k"
| "call_option (UnmountComponentAtNode container) k = None"

text \<open>The bridge calls an event adds.\<close>

definition calls_of :: "instance \<Rightarrow> event \<Rightarrow> call list" where
  "calls_of s e = drop (length (calls s)) (calls (step s e))"

text \<open>The object \<^verbatim>\<open>{ width, height }\<close>, a size report as an event, the guard of line 87
  on a reported size, and the sizes handed to \<^verbatim>\<open>render\<close> by a list of calls.\<close>

definition size_literal :: "int \<times> int \<Rightarrow> jsval" where
  "size_literal r = JLit [(''width'', JNum (fst r)), (''height'', JNum (snd r))]"

definition report :: "int \<times> int \<Rightarrow> event" where
  "report r = Resize (fst r) (snd r)"

definition positive :: "int \<times> int \<Rightarrow> bool" where
  "positive r = (0 < fst r \<and> 0 < snd r)"

definition mount_sizes :: "call list \<Rightarrow> jsval option list" where
  "mount_sizes cs = map (\<lambda>c. call_option c ''size'') (filter is_mount cs)"

subsection \<open>Invariants of a mounted instance\<close>

text \<open>
  The identity remembered for \<^verbatim>\<open>canvasProps\<close> is older than the next free one; after the
  first commit the ref and the unmount cleanup hold the canvas element, and an observer
  is connected exactly if the \<^verbatim>\<open>intersect\<close> value of the last commit is truthy.
\<close>

definition deps_fresh :: "instance \<Rightarrow> bool" where
  "deps_fresh s = (case render_deps s of None \<Rightarrow> False | Some (w, h, c, r, v) \<Rightarrow> r < heap s)"

definition wf_effects :: "instance \<Rightarrow> bool" where
  "wf_effects s =
     (alive s \<longrightarrow>
        canvasRef s = JElem ''canvas'' \<and>
        unmount_container s = Some (JElem ''canvas'') \<and>
        deps_fresh s \<and>
        (case observer_deps s of None \<Rightarrow> False | Some i \<Rightarrow> observing s = truthy i))"

text \<open>
  The pending token is held exactly while \<^verbatim>\<open>Block\<close> is displayed, which needs a mounted
  tree whose boundary has caught nothing; a failure is stored only by the boundary.
\<close>

definition wf_tree :: "instance \<Rightarrow> bool" where
  "wf_tree s =
     (alive s \<longrightarrow>
        (if block_shown s then rendered s \<and> \<not> boundary_error s \<and> is_pending (block s)
         else block s = JBool False) \<and>
        (\<not> boundary_error s \<longrightarrow> error s = JBool False))"

text \<open>When the instance is not throwing, its last commit saw the current \<^verbatim>\<open>intersect\<close>.\<close>

definition wf_sync :: "instance \<Rightarrow> bool" where
  "wf_sync s =
     (alive s \<and> completes s \<longrightarrow> observer_deps s = Some (get (props s) ''intersect''))"

text \<open>The bridge has been told to unmount once the instance is gone, and not before.\<close>

definition wf_unmount :: "instance \<Rightarrow> bool" where
  "wf_unmount s = (length (filter is_unmount (calls s)) = (if alive s then 0 else 1))"

subsection \<open>Example inputs\<close>

definition example_props :: object where
  "example_props = [(''children'', JObj 1), (''className'', JStr ''stage'')]"

text \<open>A mounted instance that has received the size 800 by 600.\<close>

definition example_mounted :: "instance" where
  "example_mounted = run (mount_component example_props) [Resize 800 600]"

text \<open>Props that also carry a \<^verbatim>\<open>size\<close> and a \<^verbatim>\<open>dpr\<close> attribute.\<close>

definition example_size_props :: object where
  "example_size_props = (''size'', JObj 7) # (''dpr'', JNum 2) # example_props"

text \<open>Props with a configured frame-loop mode, without and with visibility gating.\<close>

definition example_demand_props :: object where
  "example_demand_props = (''frameloop'', JStr ''demand'') # example_props"

definition example_gated_props :: object where
  "example_gated_props = (''intersect'', JBool True) # example_demand_props"

text \<open>Props whose configured frame-loop mode is \<^verbatim>\<open>'never'\<close>.\<close>

definition example_never_props :: object where
  "example_never_props = (''frameloop'', JStr ''never'') # example_props"

text \<open>Props that differ from the first example in the \<^verbatim>\<open>dpr\<close> option only.\<close>

definition example_dpr_props :: object where
  "example_dpr_props = (''dpr'', JNum 2) # example_props"

text \<open>A gated instance of size 800 by 600 that the observer has reported as visible.\<close>

definition example_visible :: "instance" where
  "example_visible =
     run (mount_component example_gated_props) [Resize 800 600, Intersection [True]]"


section \<open>Evaluation and commit, field by field\<close>

declare useMeasure_initial_def [simp] useMeasure_report_def [simp]

lemma Canvas_cases:
  "Canvas ps s =
     (if completes s
      then Inr \<lparr>canvasProps = pick (rest_props ps) CANVAS_PROPS, canvasProps_ref = heap s,
                divProps = omit (rest_props ps) CANVAS_PROPS,
                div_style = spread base_style (get ps ''style''),
                canvas_fallback = get ps ''fallback''\<rparr>
      else Inl (if truthy (block s) then block s else error s))"
  by (simp add: Canvas_def completes_def Let_def)

lemma render_effect_fixed [simp]:
  "alive (render_effect ps v s) = alive s"
  "props (render_effect ps v s) = props s"
  "width (render_effect ps v s) = width s"
  "height (render_effect ps v s) = height s"
  "block (render_effect ps v s) = block s"
  "error (render_effect ps v s) = error s"
  "visible (render_effect ps v s) = visible s"
  "canvasRef (render_effect ps v s) = canvasRef s"
  "render_deps (render_effect ps v s) = render_deps s"
  "unmount_container (render_effect ps v s) = unmount_container s"
  "observer_deps (render_effect ps v s) = observer_deps s"
  "observing (render_effect ps v s) = observing s"
  "heap (render_effect ps v s) = heap s"
  "boundary_error (render_effect ps v s) = boundary_error s"
  "block_shown (render_effect ps v s) = block_shown s"
  by (simp_all add: render_effect_def)

lemma observer_effect_fixed [simp]:
  "alive (observer_effect ps s) = alive s"
  "props (observer_effect ps s) = props s"
  "width (observer_effect ps s) = width s"
  "height (observer_effect ps s) = height s"
  "block (observer_effect ps s) = block s"
  "error (observer_effect ps s) = error s"
  "visible (observer_effect ps s) = visible s"
  "canvasRef (observer_effect ps s) = canvasRef s"
  "render_deps (observer_effect ps s) = render_deps s"
  "unmount_container (observer_effect ps s) = unmount_container s"
  "observer_deps (observer_effect ps s) = observer_deps s"
  "heap (observer_effect ps s) = heap s"
  "boundary_error (observer_effect ps s) = boundary_error s"
  "block_shown (observer_effect ps s) = block_shown s"
  "rendered (observer_effect ps s) = rendered s"
  "calls (observer_effect ps s) = calls s"
  by (simp_all add: observer_effect_def)

lemma observer_cleanup_fixed [simp]:
  "alive (observer_cleanup s) = alive s"
  "props (observer_cleanup s) = props s"
  "width (observer_cleanup s) = width s"
  "height (observer_cleanup s) = height s"
  "block (observer_cleanup s) = block s"
  "error (observer_cleanup s) = error s"
  "visible (observer_cleanup s) = visible s"
  "canvasRef (observer_cleanup s) = canvasRef s"
  "render_deps (observer_cleanup s) = render_deps s"
  "unmount_container (observer_cleanup s) = unmount_container s"
  "observer_deps (observer_cleanup s) = observer_deps s"
  "observing (observer_cleanup s) = False"
  "heap (observer_cleanup s) = heap s"
  "boundary_error (observer_cleanup s) = boundary_error s"
  "block_shown (observer_cleanup s) = block_shown s"
  "rendered (observer_cleanup s) = rendered s"
  "calls (observer_cleanup s) = calls s"
  by (simp_all add: observer_cleanup_def)

lemma commit_fixed [simp]:
  "alive (commit ps v s) = alive s"
  "props (commit ps v s) = props s"
  "width (commit ps v s) = width s"
  "height (commit ps v s) = height s"
  "block (commit ps v s) = block s"
  "error (commit ps v s) = error s"
  "visible (commit ps v s) = visible s"
  "heap (commit ps v s) = heap s"
  "boundary_error (commit ps v s) = boundary_error s"
  "block_shown (commit ps v s) = block_shown s"
  "canvasRef (commit ps v s) = JElem ''canvas''"
  by (simp_all add: commit_def Let_def split: option.splits)

lemma commit_calls:
  "calls (commit ps v s) =
     calls s @
       (if render_deps s \<noteq> Some (width s, height s, get ps ''children'', canvasProps_ref v, visible s)
           \<and> 0 < width s \<and> 0 < height s
        then [Render (get ps ''children'') (JElem ''canvas'')
                (mount_options ps (canvasProps v) (width s) (height s) (visible s))]
        else [])"
  by (simp add: commit_def Let_def render_effect_def split: option.splits)

lemma commit_rendered:
  "rendered (commit ps v s) =
     (rendered s \<or>
      (render_deps s \<noteq> Some (width s, height s, get ps ''children'', canvasProps_ref v, visible s)
           \<and> 0 < width s \<and> 0 < height s))"
  by (auto simp add: commit_def Let_def render_effect_def split: option.splits)

lemma commit_render_deps:
  "render_deps (commit ps v s) =
     Some (width s, height s, get ps ''children'', canvasProps_ref v, visible s)"
  by (simp add: commit_def Let_def split: option.splits)

lemma commit_unmount_container:
  "unmount_container (commit ps v s) =
     (case unmount_container s of None \<Rightarrow> Some (JElem ''canvas'') | Some c \<Rightarrow> Some c)"
  by (simp add: commit_def Let_def split: option.splits)

lemma commit_observer_deps:
  "observer_deps (commit ps v s) = Some (get ps ''intersect'')"
  by (simp add: commit_def Let_def split: option.splits)

lemma commit_observing:
  "observing (commit ps v s) =
     (if observer_deps s = Some (get ps ''intersect'') then observing s
      else truthy (get ps ''intersect''))"
  by (simp add: commit_def Let_def observer_effect_def split: option.splits)

lemma rerender_throws: "\<not> completes s \<Longrightarrow> rerender s = s\<lparr>heap := Suc (heap s)\<rparr>"
  by (simp add: rerender_def Canvas_cases)

lemma rerender_fixed [simp]:
  "alive (rerender s) = alive s"
  "props (rerender s) = props s"
  "width (rerender s) = width s"
  "height (rerender s) = height s"
  "block (rerender s) = block s"
  "error (rerender s) = error s"
  "visible (rerender s) = visible s"
  "boundary_error (rerender s) = boundary_error s"
  "block_shown (rerender s) = block_shown s"
  "heap (rerender s) = Suc (heap s)"
  by (simp_all add: rerender_def Canvas_cases)

lemma rerender_calls:
  "calls (rerender s) = calls s @ (if fires s then [mount_call s] else [])"
  by (simp add: rerender_def Canvas_cases commit_calls fires_def mount_call_def)

lemma rerender_rendered:
  "rendered (rerender s) = (rendered s \<or> fires s)"
  by (auto simp add: rerender_def Canvas_cases commit_rendered fires_def)

lemma rerender_canvasRef:
  "canvasRef (rerender s) = (if completes s then JElem ''canvas'' else canvasRef s)"
  by (simp add: rerender_def Canvas_cases)

lemma rerender_render_deps:
  "render_deps (rerender s) =
     (if completes s then Some (width s, height s, get (props s) ''children'', heap s, visible s)
      else render_deps s)"
  by (simp add: rerender_def Canvas_cases commit_render_deps)

lemma rerender_unmount_container:
  "unmount_container (rerender s) =
     (if completes s \<and> unmount_container s = None then Some (JElem ''canvas'')
      else unmount_container s)"
  by (simp add: rerender_def Canvas_cases commit_unmount_container split: option.splits)

lemma rerender_observer_deps:
  "observer_deps (rerender s) =
     (if completes s then Some (get (props s) ''intersect'') else observer_deps s)"
  by (simp add: rerender_def Canvas_cases commit_observer_deps)

lemma rerender_observing:
  "observing (rerender s) =
     (if completes s \<and> observer_deps s \<noteq> Some (get (props s) ''intersect'')
      then truthy (get (props s) ''intersect'') else observing s)"
  by (simp add: rerender_def Canvas_cases commit_observing)

lemma is_pending_truthy: "is_pending v \<Longrightarrow> truthy v"
  by (cases v rule: is_pending.cases) simp_all

lemmas rerender_fields =
  rerender_canvasRef rerender_unmount_container rerender_render_deps rerender_observer_deps
  rerender_observing rerender_rendered

lemma schedule_induct:
  assumes "P s'" and "P (rerender s')"
  shows "P (schedule s s')"
  using assms by (simp add: schedule_def)

lemma wf_effects_rerender: "wf_effects s \<Longrightarrow> wf_effects (rerender s)"
  by (auto simp add: wf_effects_def rerender_fields deps_fresh_def split: option.splits)

lemma wf_tree_rerender: "wf_tree s \<Longrightarrow> wf_tree (rerender s)"
  by (simp add: wf_tree_def rerender_rendered)

lemma wf_sync_rerender: "wf_sync (rerender s)"
  by (simp add: wf_sync_def rerender_observer_deps completes_def)

lemma wf_effects_schedule: "wf_effects s' \<Longrightarrow> wf_effects (schedule s s')"
  by (rule schedule_induct) (simp_all add: wf_effects_rerender)

lemma wf_tree_schedule: "wf_tree s' \<Longrightarrow> wf_tree (schedule s s')"
  by (rule schedule_induct) (simp_all add: wf_tree_rerender)

lemma wf_sync_schedule:
  assumes "wf_sync s" and "alive s' = alive s" and "props s' = props s"
    and "observer_deps s' = observer_deps s"
  shows "wf_sync (schedule s s')"
proof (cases "hook_state s' = hook_state s")
  case True
  then have "completes s' = completes s"
    by (simp add: hook_state_def completes_def)
  with assms True show ?thesis
    by (simp add: schedule_def wf_sync_def)
next
  case False
  then show ?thesis
    by (simp add: schedule_def wf_sync_rerender)
qed

lemma wf_mount_component:
  "wf_effects (mount_component ps)" "wf_tree (mount_component ps)" "wf_sync (mount_component ps)"
  by (simp_all add: wf_effects_def wf_tree_def wf_sync_def mount_component_def rerender_fields
      completes_def deps_fresh_def)

lemma wf_effects_step: "wf_effects s \<Longrightarrow> wf_effects (step s e)"
proof (cases e)
  case (Resize w h)
  assume "wf_effects s"
  then have "wf_effects (s\<lparr>width := w, height := h\<rparr>)"
    by (auto simp add: wf_effects_def deps_fresh_def split: option.splits)
  with Resize \<open>wf_effects s\<close> show ?thesis
    by (simp add: wf_effects_schedule)
next
  case (Intersection entries)
  assume a: "wf_effects s"
  show ?thesis
  proof (cases entries)
    case Nil
    with Intersection a show ?thesis by simp
  next
    case (Cons b bs)
    from a have "wf_effects (s\<lparr>visible := b\<rparr>)"
      by (auto simp add: wf_effects_def deps_fresh_def split: option.splits)
    with Intersection Cons a show ?thesis
      by (simp add: wf_effects_schedule)
  qed
next
  case (SetProps ps)
  assume a: "wf_effects s"
  then have "wf_effects (s\<lparr>props := ps\<rparr>)"
    by (auto simp add: wf_effects_def deps_fresh_def split: option.splits)
  with SetProps a show ?thesis
    by (simp add: wf_effects_rerender)
next
  case Suspend
  assume a: "wf_effects s"
  then have "wf_effects (Block_effect (s\<lparr>block_shown := True\<rparr>))"
    by (auto simp add: wf_effects_def deps_fresh_def Block_effect_def split: option.splits)
  with Suspend a show ?thesis
    by (simp add: wf_effects_schedule)
next
  case Resume
  assume a: "wf_effects s"
  then have "wf_effects (Block_cleanup (s\<lparr>block_shown := False\<rparr>))"
    by (auto simp add: wf_effects_def deps_fresh_def Block_cleanup_def split: option.splits)
  with Resume a show ?thesis
    by (simp add: wf_effects_schedule)
next
  case (ChildThrows x)
  assume a: "wf_effects s"
  then have "wf_effects (componentDidCatch x
      ((if block_shown s then Block_cleanup else id)
         (s\<lparr>boundary_error := True, block_shown := False\<rparr>)))"
    by (auto simp add: wf_effects_def deps_fresh_def Block_cleanup_def componentDidCatch_def split: option.splits)
  with ChildThrows a show ?thesis
    by (simp add: wf_effects_schedule)
next
  case Teardown
  assume "wf_effects s"
  with Teardown show ?thesis
    by (simp add: wf_effects_def)
qed

lemma wf_tree_step: "wf_tree s \<Longrightarrow> wf_tree (step s e)"
proof (cases e)
  case (Resize w h)
  assume a: "wf_tree s"
  then have "wf_tree (s\<lparr>width := w, height := h\<rparr>)"
    by (simp add: wf_tree_def)
  with Resize a show ?thesis
    by (simp add: wf_tree_schedule)
next
  case (Intersection entries)
  assume a: "wf_tree s"
  show ?thesis
  proof (cases entries)
    case Nil
    with Intersection a show ?thesis by simp
  next
    case (Cons b bs)
    from a have "wf_tree (s\<lparr>visible := b\<rparr>)"
      by (simp add: wf_tree_def)
    with Intersection Cons a show ?thesis
      by (simp add: wf_tree_schedule)
  qed
next
  case (SetProps ps)
  assume a: "wf_tree s"
  then have "wf_tree (s\<lparr>props := ps\<rparr>)"
    by (simp add: wf_tree_def)
  with SetProps a show ?thesis
    by (simp add: wf_tree_rerender)
next
  case Suspend
  assume a: "wf_tree s"
  then have "rendered s \<and> \<not> boundary_error s \<Longrightarrow> wf_tree (Block_effect (s\<lparr>block_shown := True\<rparr>))"
    by (simp add: wf_tree_def Block_effect_def)
  with Suspend a show ?thesis
    by (simp add: wf_tree_schedule)
next
  case Resume
  assume a: "wf_tree s"
  then have "wf_tree (Block_cleanup (s\<lparr>block_shown := False\<rparr>))"
    by (simp add: wf_tree_def Block_cleanup_def)
  with Resume a show ?thesis
    by (simp add: wf_tree_schedule)
next
  case (ChildThrows x)
  assume a: "wf_tree s"
  then have "wf_tree (componentDidCatch x
      ((if block_shown s then Block_cleanup else id)
         (s\<lparr>boundary_error := True, block_shown := False\<rparr>)))"
    by (simp add: wf_tree_def Block_cleanup_def componentDidCatch_def)
  with ChildThrows a show ?thesis
    by (simp add: wf_tree_schedule)
next
  case Teardown
  assume "wf_tree s"
  with Teardown show ?thesis
    by (simp add: wf_tree_def)
qed

lemma wf_sync_step: "wf_sync s \<Longrightarrow> wf_sync (step s e)"
proof (cases e)
  case (Resize w h)
  assume a: "wf_sync s"
  with Resize show ?thesis
    by (simp add: wf_sync_schedule)
next
  case (Intersection entries)
  assume a: "wf_sync s"
  with Intersection show ?thesis
    by (cases entries) (simp_all add: wf_sync_schedule)
next
  case (SetProps ps)
  assume a: "wf_sync s"
  with SetProps show ?thesis
    by (simp add: wf_sync_rerender)
next
  case Suspend
  assume a: "wf_sync s"
  with Suspend show ?thesis
    by (simp add: wf_sync_schedule Block_effect_def)
next
  case Resume
  assume a: "wf_sync s"
  with Resume show ?thesis
    by (simp add: wf_sync_schedule Block_cleanup_def)
next
  case (ChildThrows x)
  assume a: "wf_sync s"
  with ChildThrows show ?thesis
    by (simp add: wf_sync_schedule Block_cleanup_def componentDidCatch_def)
next
  case Teardown
  then show ?thesis
    by (simp add: wf_sync_def)
qed

lemma run_Nil [simp]: "run s [] = s"
  by (simp add: run_def)

lemma run_Cons [simp]: "run s (e # es) = run (step s e) es"
  by (simp add: run_def)


lemma wf_run:
  "wf_effects s \<Longrightarrow> wf_effects (run s es)"
  "wf_tree s \<Longrightarrow> wf_tree (run s es)"
  "wf_sync s \<Longrightarrow> wf_sync (run s es)"
  by (induction es arbitrary: s) (simp_all add: wf_effects_step wf_tree_step wf_sync_step)

lemma fires_fresh:
  "deps_fresh s \<Longrightarrow> fires s = (completes s \<and> 0 < width s \<and> 0 < height s)"
  by (auto simp add: fires_def deps_fresh_def split: option.splits)

lemma calls_schedule:
  "calls (schedule s s') =
     calls s' @ (if hook_state s' \<noteq> hook_state s \<and> fires s' then [mount_call s'] else [])"
  by (simp add: schedule_def rerender_calls)

lemma mount_call_rerender [simp]: "mount_call (rerender s) = mount_call s"
  by (simp add: mount_call_def)

lemma mount_call_schedule [simp]: "mount_call (schedule s s') = mount_call s'"
  by (simp add: schedule_def)

lemma is_mount_mount_call [simp]: "is_mount (mount_call s)" "\<not> is_unmount (mount_call s)"
  by (simp_all add: mount_call_def)

lemma calls_of_Resize:
  "calls_of s (Resize w h) =
     (if alive s \<and> (w \<noteq> width s \<or> h \<noteq> height s) \<and> fires (s\<lparr>width := w, height := h\<rparr>)
      then [mount_call (step s (Resize w h))] else [])"
  by (auto simp add: calls_of_def calls_schedule hook_state_def)

lemma calls_of_Intersection:
  "calls_of s (Intersection entries) =
     (case entries of [] \<Rightarrow> []
      | b # bs \<Rightarrow>
         (if alive s \<and> observing s \<and> b \<noteq> visible s \<and> fires (s\<lparr>visible := b\<rparr>)
          then [mount_call (step s (Intersection entries))] else []))"
  by (auto simp add: calls_of_def calls_schedule hook_state_def split: list.splits)

lemma calls_of_SetProps:
  "calls_of s (SetProps ps) =
     (if alive s \<and> fires (s\<lparr>props := ps\<rparr>) then [mount_call (step s (SetProps ps))] else [])"
  by (auto simp add: calls_of_def rerender_calls)

lemma calls_of_Suspend: "calls_of s Suspend = []"
  by (auto simp add: calls_of_def calls_schedule hook_state_def Block_effect_def fires_def completes_def)

lemma calls_of_Resume:
  "calls_of s Resume =
     (if alive s \<and> block_shown s \<and> block s \<noteq> JBool False
         \<and> fires (Block_cleanup (s\<lparr>block_shown := False\<rparr>))
      then [mount_call (step s Resume)] else [])"
  by (auto simp add: calls_of_def calls_schedule hook_state_def Block_cleanup_def)

lemma calls_of_Teardown:
  "calls_of s Teardown =
     (if alive s then (case unmount_container s of None \<Rightarrow> []
                       | Some container \<Rightarrow> [UnmountComponentAtNode container])
      else [])"
  by (simp add: calls_of_def unmount_cleanup_def split: option.splits)

section \<open>The calls an event adds\<close>

lemma schedule_fixed [simp]:
  "alive (schedule s s') = alive s'"
  "props (schedule s s') = props s'"
  "width (schedule s s') = width s'"
  "height (schedule s s') = height s'"
  "block (schedule s s') = block s'"
  "error (schedule s s') = error s'"
  "visible (schedule s s') = visible s'"
  "boundary_error (schedule s s') = boundary_error s'"
  "block_shown (schedule s s') = block_shown s'"
  by (simp_all add: schedule_def)

lemma Block_effect_fields [simp]:
  "alive (Block_effect s) = alive s"
  "props (Block_effect s) = props s"
  "width (Block_effect s) = width s"
  "height (Block_effect s) = height s"
  "block (Block_effect s) = JPromise (heap s) Pending"
  "error (Block_effect s) = error s"
  "visible (Block_effect s) = visible s"
  "canvasRef (Block_effect s) = canvasRef s"
  "render_deps (Block_effect s) = render_deps s"
  "unmount_container (Block_effect s) = unmount_container s"
  "observer_deps (Block_effect s) = observer_deps s"
  "observing (Block_effect s) = observing s"
  "heap (Block_effect s) = Suc (heap s)"
  "boundary_error (Block_effect s) = boundary_error s"
  "block_shown (Block_effect s) = block_shown s"
  "rendered (Block_effect s) = rendered s"
  "calls (Block_effect s) = calls s"
  by (simp_all add: Block_effect_def)

lemma Block_cleanup_fields [simp]:
  "alive (Block_cleanup s) = alive s"
  "props (Block_cleanup s) = props s"
  "width (Block_cleanup s) = width s"
  "height (Block_cleanup s) = height s"
  "block (Block_cleanup s) = JBool False"
  "error (Block_cleanup s) = error s"
  "visible (Block_cleanup s) = visible s"
  "canvasRef (Block_cleanup s) = canvasRef s"
  "render_deps (Block_cleanup s) = render_deps s"
  "unmount_container (Block_cleanup s) = unmount_container s"
  "observer_deps (Block_cleanup s) = observer_deps s"
  "observing (Block_cleanup s) = observing s"
  "heap (Block_cleanup s) = heap s"
  "boundary_error (Block_cleanup s) = boundary_error s"
  "block_shown (Block_cleanup s) = block_shown s"
  "rendered (Block_cleanup s) = rendered s"
  "calls (Block_cleanup s) = calls s"
  by (simp_all add: Block_cleanup_def)

lemma componentDidCatch_fields [simp]:
  "alive (componentDidCatch e s) = alive s"
  "props (componentDidCatch e s) = props s"
  "width (componentDidCatch e s) = width s"
  "height (componentDidCatch e s) = height s"
  "block (componentDidCatch e s) = block s"
  "error (componentDidCatch e s) = e"
  "visible (componentDidCatch e s) = visible s"
  "canvasRef (componentDidCatch e s) = canvasRef s"
  "render_deps (componentDidCatch e s) = render_deps s"
  "unmount_container (componentDidCatch e s) = unmount_container s"
  "observer_deps (componentDidCatch e s) = observer_deps s"
  "observing (componentDidCatch e s) = observing s"
  "heap (componentDidCatch e s) = heap s"
  "boundary_error (componentDidCatch e s) = boundary_error s"
  "block_shown (componentDidCatch e s) = block_shown s"
  "rendered (componentDidCatch e s) = rendered s"
  "calls (componentDidCatch e s) = calls s"
  by (simp_all add: componentDidCatch_def)

lemma calls_of_ChildThrows:
  "truthy x \<Longrightarrow> calls_of s (ChildThrows x) = []"
  by (simp add: calls_of_def calls_schedule fires_def completes_def)

lemma calls_of_cases:
  assumes "e \<noteq> Teardown"
  shows "calls_of s e = [] \<or> calls_of s e = [mount_call (step s e)]"
proof (cases e)
  case (Resize w h)
  then show ?thesis by (simp add: calls_of_Resize)
next
  case (Intersection entries)
  then show ?thesis by (cases entries) (simp_all add: calls_of_Intersection)
next
  case (SetProps ps)
  then show ?thesis by (simp add: calls_of_SetProps)
next
  case Suspend
  then show ?thesis by (simp add: calls_of_Suspend)
next
  case Resume
  then show ?thesis by (simp add: calls_of_Resume)
next
  case (ChildThrows x)
  then show ?thesis by (simp add: calls_of_def calls_schedule)
next
  case Teardown
  with assms show ?thesis by simp
qed

lemma calls_step: "calls (step s e) = calls s @ calls_of s e"
proof (cases e)
  case (Resize w h)
  then show ?thesis by (simp add: calls_of_def calls_schedule)
next
  case (Intersection entries)
  then show ?thesis
    by (cases entries) (simp_all add: calls_of_def calls_schedule)
next
  case (SetProps ps)
  then show ?thesis by (simp add: calls_of_def rerender_calls)
next
  case Suspend
  then show ?thesis by (simp add: calls_of_def calls_schedule)
next
  case Resume
  then show ?thesis by (simp add: calls_of_def calls_schedule)
next
  case (ChildThrows x)
  then show ?thesis by (simp add: calls_of_def calls_schedule)
next
  case Teardown
  then show ?thesis
    by (simp add: calls_of_def unmount_cleanup_def split: option.splits)
qed

lemma mounts_of_step:
  assumes "c \<in> set (calls_of s e)" and "is_mount c"
  shows "c = mount_call (step s e)"
proof (cases "e = Teardown")
  case True
  with assms(1) have "c \<in> set (calls_of s Teardown)" by simp
  then have "\<not> is_mount c"
    by (cases "alive s"; cases "unmount_container s") (simp_all add: calls_of_Teardown)
  with assms(2) show ?thesis by simp
next
  case False
  from calls_of_cases [OF False, of s] assms show ?thesis by auto
qed

lemma alive_step: "alive (step s e) = (alive s \<and> e \<noteq> Teardown)"
proof (cases e)
  case (Intersection entries)
  then show ?thesis by (cases entries) simp_all
qed simp_all

lemma alive_run: "alive (run s es) = (alive s \<and> Teardown \<notin> set es)"
  by (induction es arbitrary: s) (auto simp add: alive_step)

lemma step_dead: "\<not> alive s \<Longrightarrow> step s e = s"
  by (cases e) simp_all

lemma wf_unmount_step:
  assumes "wf_unmount s" and "wf_effects s"
  shows "wf_unmount (step s e)"
proof (cases "alive s")
  case False
  with assms show ?thesis by (simp add: step_dead)
next
  case True
  show ?thesis
  proof (cases "e = Teardown")
    case True
    with \<open>alive s\<close> assms show ?thesis
      by (simp add: wf_unmount_def wf_effects_def unmount_cleanup_def)
  next
    case False
    have "filter is_unmount (calls_of s e) = []"
      using calls_of_cases [OF False, of s] by auto
    with False \<open>alive s\<close> assms show ?thesis
      by (simp add: wf_unmount_def calls_step alive_step)
  qed
qed

lemma wf_unmount_mount_component: "wf_unmount (mount_component ps)"
  by (simp add: wf_unmount_def mount_component_def rerender_calls)

lemma wf_unmount_run:
  "wf_unmount s \<Longrightarrow> wf_effects s \<Longrightarrow> wf_unmount (run s es)"
  by (induction es arbitrary: s) (simp_all add: wf_unmount_step wf_effects_step)

section \<open>The suspension relay\<close>

lemma block_reachable:
  assumes "alive (run (mount_component ps) es)"
  shows "block (run (mount_component ps) es) = JBool False
         \<or> is_pending (block (run (mount_component ps) es))"
proof -
  have "wf_tree (run (mount_component ps) es)"
    by (simp add: wf_run wf_mount_component)
  with assms show ?thesis
    by (simp add: wf_tree_def split: if_splits)
qed

text \<open>
  C7. When \<^verbatim>\<open>Block\<close> is displayed, the block state of the owning component becomes a new
  promise that is pending (its executor settles nothing), and when the fallback is removed
  the block state is \<^verbatim>\<open>false\<close> again. Whatever else the state holds, an evaluation of
  \<^verbatim>\<open>Canvas\<close> with a truthy block state throws that very value and produces no output: after
  the display of \<^verbatim>\<open>Block\<close> the component throws the token and makes no bridge call. In
  every state a mounted instance can reach, the block state is \<^verbatim>\<open>false\<close> or a pending
  promise.
\<close>

theorem C7_block_token_suspends_canvas:
  "(alive s \<and> rendered s \<and> \<not> boundary_error s \<and> \<not> block_shown s \<longrightarrow>
      block (step s Suspend) = JPromise (heap s) Pending \<and>
      Canvas (props (step s Suspend)) (step s Suspend) = Inl (JPromise (heap s) Pending) \<and>
      calls (step s Suspend) = calls s) \<and>
   (alive s \<and> block_shown s \<longrightarrow> block (step s Resume) = JBool False) \<and>
   (truthy (block s) \<longrightarrow> Canvas ps s = Inl (block s)) \<and>
   (alive (run (mount_component qs) es) \<longrightarrow>
      block (run (mount_component qs) es) = JBool False
      \<or> is_pending (block (run (mount_component qs) es)))"
proof (intro conjI impI)
  assume a: "alive s \<and> rendered s \<and> \<not> boundary_error s \<and> \<not> block_shown s"
  then show b: "block (step s Suspend) = JPromise (heap s) Pending"
    by simp
  then show "Canvas (props (step s Suspend)) (step s Suspend) = Inl (JPromise (heap s) Pending)"
    by (simp add: Canvas_cases completes_def)
  show "calls (step s Suspend) = calls s"
    using calls_step [of s Suspend] by (simp only: calls_of_Suspend append_Nil2)
next
  assume "alive s \<and> block_shown s"
  then show "block (step s Resume) = JBool False"
    by simp
next
  assume "truthy (block s)"
  then show "Canvas ps s = Inl (block s)"
    by (simp add: Canvas_cases completes_def)
next
  assume "alive (run (mount_component qs) es)"
  then show "block (run (mount_component qs) es) = JBool False
      \<or> is_pending (block (run (mount_component qs) es))"
    by (rule block_reachable)
qed

theorem C7_witness:
  "alive example_mounted \<and> rendered example_mounted \<and> \<not> boundary_error example_mounted
   \<and> \<not> block_shown example_mounted
   \<and> block (step example_mounted Suspend) = JPromise 2 Pending
   \<and> Canvas example_props (step example_mounted Suspend) = Inl (JPromise 2 Pending)
   \<and> calls (step example_mounted Suspend) = calls example_mounted
   \<and> block_shown (step example_mounted Suspend)
   \<and> block (step (step example_mounted Suspend) Resume) = JBool False"
proof -
  have h: "alive example_mounted \<and> rendered example_mounted \<and> \<not> boundary_error example_mounted
      \<and> \<not> block_shown example_mounted"
    by code_simp
  have v: "heap example_mounted = 2" "props (step example_mounted Suspend) = example_props"
    by code_simp+
  have k: "alive (step example_mounted Suspend) \<and> block_shown (step example_mounted Suspend)"
    by code_simp
  from h v k
    C7_block_token_suspends_canvas [of example_mounted example_props example_props "[]"]
    C7_block_token_suspends_canvas [of "step example_mounted Suspend" example_props example_props "[]"]
  show ?thesis
    by simp
qed

section \<open>Teardown\<close>

lemma alive_mount_component [simp]: "alive (mount_component ps)"
  by (simp add: mount_component_def)

lemma wf_effects_reachable: "wf_effects (run (mount_component ps) es)"
  by (simp add: wf_run wf_mount_component)

lemma wf_unmount_reachable: "wf_unmount (run (mount_component ps) es)"
  by (simp add: wf_unmount_run wf_unmount_mount_component wf_mount_component)

text \<open>
  C6. Whatever happened to a mounted instance before, and whatever is delivered after,
  the bridge has received exactly one \<^verbatim>\<open>unmountComponentAtNode\<close> call if the component
  has been torn down, and none if it has not. The teardown of a live instance adds
  exactly that one call, for the canvas element; this includes an instance whose size
  stayed zero (no \<^verbatim>\<open>render\<close> call) and one that is suspended.
\<close>

theorem C6_unmount_exactly_once:
  "length (filter is_unmount (calls (run (mount_component ps) es)))
     = (if Teardown \<in> set es then 1 else 0)
   \<and> (alive (run (mount_component ps) es) \<longrightarrow>
        calls_of (run (mount_component ps) es) Teardown
          = [UnmountComponentAtNode (JElem ''canvas'')])"
proof (intro conjI impI)
  have "wf_unmount (run (mount_component ps) es)"
    by (rule wf_unmount_reachable)
  then show "length (filter is_unmount (calls (run (mount_component ps) es)))
     = (if Teardown \<in> set es then 1 else 0)"
    by (simp add: wf_unmount_def alive_run)
next
  assume a: "alive (run (mount_component ps) es)"
  have "wf_effects (run (mount_component ps) es)"
    by (rule wf_effects_reachable)
  with a show "calls_of (run (mount_component ps) es) Teardown
          = [UnmountComponentAtNode (JElem ''canvas'')]"
    by (simp add: wf_effects_def calls_of_Teardown)
qed

theorem C6_witness:
  "filter is_mount (calls (run (mount_component example_props) [Teardown])) = []
   \<and> length (filter is_unmount (calls (run (mount_component example_props) [Teardown]))) = 1
   \<and> alive (run (mount_component example_props) [Resize 800 600, Suspend])
   \<and> truthy (block (run (mount_component example_props) [Resize 800 600, Suspend]))
   \<and> calls_of (run (mount_component example_props) [Resize 800 600, Suspend]) Teardown
        = [UnmountComponentAtNode (JElem ''canvas'')]
   \<and> length (filter is_unmount (calls (run (mount_component example_props)
        [Resize 800 600, Suspend, Teardown, Resize 640 480, Teardown]))) = 1
   \<and> length (filter is_unmount (calls (run (mount_component example_props)
        [Resize 800 600, Suspend]))) = 0"
proof -
  have h: "filter is_mount (calls (run (mount_component example_props) [Teardown])) = []"
    "alive (run (mount_component example_props) [Resize 800 600, Suspend])"
    "truthy (block (run (mount_component example_props) [Resize 800 600, Suspend]))"
    by code_simp+
  from h
    C6_unmount_exactly_once [of example_props "[Teardown]"]
    C6_unmount_exactly_once [of example_props "[Resize 800 600, Suspend]"]
    C6_unmount_exactly_once [of example_props
      "[Resize 800 600, Suspend, Teardown, Resize 640 480, Teardown]"]
  show ?thesis
    by simp
qed

section \<open>Objects: lookup after pick, omit and spread\<close>

lemma map_of_pick:
  "map_of (pick obj paths) k = (if k \<in> set paths then map_of obj k else None)"
  by (induction paths) (auto simp add: pick_def map_filter_simps split: option.splits)

lemma map_of_omit:
  "map_of (omit obj paths) k = (if k \<in> set paths then None else map_of obj k)"
  by (induction obj) (auto simp add: omit_def)

lemma map_of_rest_props:
  "map_of (rest_props ps) k = (if k \<in> set destructured then None else map_of ps k)"
  by (induction ps) (auto simp add: rest_props_def)

lemma map_of_mount_options:
  "map_of (mount_options ps cp w h vis) k =
     (if k = ''frameloop''
      then Some (if shouldRender ps vis then get ps ''frameloop'' else JStr ''never'')
      else if k = ''events''
      then Some (if truthy (get ps ''events'') then get ps ''events'' else createPointerEvents)
      else if k = ''size'' then Some (size_literal (w, h))
      else map_of cp k)"
  by (simp add: mount_options_def update_conv' size_literal_def)

lemma call_option_mount_call:
  "call_option (mount_call s) k =
     map_of (mount_options (props s) (pick (rest_props (props s)) CANVAS_PROPS)
               (width s) (height s) (visible s)) k"
  by (simp add: mount_call_def)

section \<open>The options of a mount call\<close>

text \<open>
  C10. In the options literal, and so in every \<^verbatim>\<open>render\<close> call an event leads to, the
  \<^verbatim>\<open>size\<close> option is the object made of the measured width and height of that moment,
  whatever the picked attributes hold (a \<^verbatim>\<open>size\<close> attribute of the caller included), and
  the \<^verbatim>\<open>events\<close> option is the caller's factory if it is truthy and the imported
  \<^verbatim>\<open>createPointerEvents\<close> otherwise, in particular when the caller gives none.
\<close>

theorem C10_measured_size_default_events:
  "map_of (mount_options ps cp w h vis) ''size'' = Some (size_literal (w, h))
   \<and> map_of (mount_options ps cp w h vis) ''events''
       = Some (if truthy (get ps ''events'') then get ps ''events'' else createPointerEvents)
   \<and> (map_of ps ''events'' = None \<longrightarrow>
        map_of (mount_options ps cp w h vis) ''events'' = Some createPointerEvents)
   \<and> (\<forall>c \<in> set (calls_of s e). is_mount c \<longrightarrow>
        call_option c ''size'' = Some (size_literal (width (step s e), height (step s e)))
        \<and> call_option c ''events''
            = Some (if truthy (get (props (step s e)) ''events'')
                    then get (props (step s e)) ''events'' else createPointerEvents))"
proof (intro conjI impI ballI)
  show "map_of (mount_options ps cp w h vis) ''size'' = Some (size_literal (w, h))"
    by (simp add: map_of_mount_options)
  show "map_of (mount_options ps cp w h vis) ''events''
       = Some (if truthy (get ps ''events'') then get ps ''events'' else createPointerEvents)"
    by (simp add: map_of_mount_options)
next
  assume "map_of ps ''events'' = None"
  then show "map_of (mount_options ps cp w h vis) ''events'' = Some createPointerEvents"
    by (simp add: map_of_mount_options get_def)
next
  fix c
  assume "c \<in> set (calls_of s e)" and "is_mount c"
  then have c: "c = mount_call (step s e)"
    by (rule mounts_of_step)
  show "call_option c ''size'' = Some (size_literal (width (step s e), height (step s e)))"
    unfolding c call_option_mount_call by (simp add: map_of_mount_options)
  show "call_option c ''events''
            = Some (if truthy (get (props (step s e)) ''events'')
                    then get (props (step s e)) ''events'' else createPointerEvents)"
    unfolding c call_option_mount_call by (simp add: map_of_mount_options)
qed

theorem C10_witness:
  "map_of (pick (rest_props example_size_props) CANVAS_PROPS) ''size'' = Some (JObj 7)
   \<and> map_of example_size_props ''events'' = None
   \<and> calls_of (mount_component example_size_props) (Resize 800 600)
       = [mount_call (step (mount_component example_size_props) (Resize 800 600))]
   \<and> call_option (mount_call (step (mount_component example_size_props) (Resize 800 600))) ''size''
       = Some (size_literal (800, 600))
   \<and> call_option (mount_call (step (mount_component example_size_props) (Resize 800 600))) ''events''
       = Some createPointerEvents"
proof -
  have h: "map_of (pick (rest_props example_size_props) CANVAS_PROPS) ''size'' = Some (JObj 7)"
    "map_of example_size_props ''events'' = None"
    "calls_of (mount_component example_size_props) (Resize 800 600)
       = [mount_call (step (mount_component example_size_props) (Resize 800 600))]"
    "width (step (mount_component example_size_props) (Resize 800 600)) = 800"
    "height (step (mount_component example_size_props) (Resize 800 600)) = 600"
    "get (props (step (mount_component example_size_props) (Resize 800 600))) ''events'' = JUndefined"
    by code_simp+
  from h
    C10_measured_size_default_events
      [of example_size_props "[]" 0 0 False "mount_component example_size_props" "Resize 800 600"]
  show ?thesis
    by simp
qed

section \<open>The split of the attributes\<close>

theorem C8_counterexample:
  "map_of (rest_props example_size_props) ''size'' = Some (JObj 7)
   \<and> ''size'' \<in> set CANVAS_PROPS
   \<and> map_of (omit (rest_props example_size_props) CANVAS_PROPS) ''size'' = None
   \<and> calls (run (mount_component example_size_props) [Resize 800 600])
       = [Render (JObj 1) (JElem ''canvas'')
            [(''size'', JLit [(''width'', JNum 800), (''height'', JNum 600)]),
             (''dpr'', JNum 2),
             (''events'', JImport ''createPointerEvents''),
             (''frameloop'', JUndefined)]]"
  by code_simp

text \<open>
  C8, as amended. Of the attributes left after the named options are taken out, the picked
  group holds exactly those whose key is in \<^verbatim>\<open>CANVAS_PROPS\<close> and the omitted group exactly
  the others, each with the caller's value: no key is in both groups and every attribute
  is in one of them. The omitted group is what the evaluation applies to the container
  element. An attribute of the picked group reaches the options of the \<^verbatim>\<open>render\<close> call with
  the caller's value unless its key is \<^verbatim>\<open>size\<close>, whose value the call replaces by the
  measured size.
\<close>

theorem C8_attribute_split:
  "map_of (rest_props ps) k = (if k \<in> set destructured then None else map_of ps k)
   \<and> map_of (pick (rest_props ps) CANVAS_PROPS) k
       = (if k \<in> set CANVAS_PROPS then map_of (rest_props ps) k else None)
   \<and> map_of (omit (rest_props ps) CANVAS_PROPS) k
       = (if k \<in> set CANVAS_PROPS then None else map_of (rest_props ps) k)
   \<and> (map_of (pick (rest_props ps) CANVAS_PROPS) k = None
       \<or> map_of (omit (rest_props ps) CANVAS_PROPS) k = None)
   \<and> (map_of (rest_props ps) k = Some v) =
       (map_of (pick (rest_props ps) CANVAS_PROPS) k = Some v
        \<or> map_of (omit (rest_props ps) CANVAS_PROPS) k = Some v)
   \<and> (\<forall>vw. Canvas ps s = Inr vw \<longrightarrow>
         canvasProps vw = pick (rest_props ps) CANVAS_PROPS
         \<and> divProps vw = omit (rest_props ps) CANVAS_PROPS)
   \<and> (map_of (pick (rest_props ps) CANVAS_PROPS) k = Some v \<and> k \<noteq> ''size'' \<longrightarrow>
         map_of (mount_options ps (pick (rest_props ps) CANVAS_PROPS) w h vis) k = Some v)
   \<and> (\<forall>c \<in> set (calls_of t e). is_mount c \<longrightarrow>
         map_of (pick (rest_props (props (step t e))) CANVAS_PROPS) k = Some v \<and> k \<noteq> ''size''
         \<longrightarrow> call_option c k = Some v)"
proof (intro conjI impI ballI allI)
  show "map_of (rest_props ps) k = (if k \<in> set destructured then None else map_of ps k)"
    by (rule map_of_rest_props)
  show "map_of (pick (rest_props ps) CANVAS_PROPS) k
       = (if k \<in> set CANVAS_PROPS then map_of (rest_props ps) k else None)"
    by (rule map_of_pick)
  show "map_of (omit (rest_props ps) CANVAS_PROPS) k
       = (if k \<in> set CANVAS_PROPS then None else map_of (rest_props ps) k)"
    by (rule map_of_omit)
  show "map_of (pick (rest_props ps) CANVAS_PROPS) k = None
       \<or> map_of (omit (rest_props ps) CANVAS_PROPS) k = None"
    by (simp add: map_of_pick map_of_omit)
  show "(map_of (rest_props ps) k = Some v) =
       (map_of (pick (rest_props ps) CANVAS_PROPS) k = Some v
        \<or> map_of (omit (rest_props ps) CANVAS_PROPS) k = Some v)"
    by (simp add: map_of_pick map_of_omit)
next
  fix vw
  assume a: "Canvas ps s = Inr vw"
  then show "canvasProps vw = pick (rest_props ps) CANVAS_PROPS"
    by (auto simp add: Canvas_cases split: if_splits)
  from a show "divProps vw = omit (rest_props ps) CANVAS_PROPS"
    by (auto simp add: Canvas_cases split: if_splits)
next
  assume a: "map_of (pick (rest_props ps) CANVAS_PROPS) k = Some v \<and> k \<noteq> ''size''"
  then have "k \<notin> set destructured"
    by (auto simp add: map_of_pick map_of_rest_props split: if_splits)
  then have "k \<noteq> ''frameloop''" and "k \<noteq> ''events''"
    by (auto simp add: destructured_def)
  with a show "map_of (mount_options ps (pick (rest_props ps) CANVAS_PROPS) w h vis) k = Some v"
    by (simp add: map_of_mount_options)
next
  fix c
  assume "c \<in> set (calls_of t e)" and "is_mount c"
  then have c: "c = mount_call (step t e)"
    by (rule mounts_of_step)
  assume a: "map_of (pick (rest_props (props (step t e))) CANVAS_PROPS) k = Some v \<and> k \<noteq> ''size''"
  then have "k \<notin> set destructured"
    by (auto simp add: map_of_pick map_of_rest_props split: if_splits)
  then have "k \<noteq> ''frameloop''" and "k \<noteq> ''events''"
    by (auto simp add: destructured_def)
  with a show "call_option c k = Some v"
    unfolding c call_option_mount_call by (simp add: map_of_mount_options)
qed

theorem C8_witness:
  "map_of (pick (rest_props example_size_props) CANVAS_PROPS) ''dpr'' = Some (JNum 2)
   \<and> map_of (omit (rest_props example_size_props) CANVAS_PROPS) ''dpr'' = None
   \<and> map_of (omit (rest_props example_size_props) CANVAS_PROPS) ''className'' = Some (JStr ''stage'')
   \<and> map_of (pick (rest_props example_size_props) CANVAS_PROPS) ''className'' = None
   \<and> map_of (rest_props example_size_props) ''children'' = None
   \<and> map_of (mount_options example_size_props
         (pick (rest_props example_size_props) CANVAS_PROPS) 800 600 False) ''dpr'' = Some (JNum 2)
   \<and> calls_of (mount_component example_size_props) (Resize 800 600)
       = [mount_call (step (mount_component example_size_props) (Resize 800 600))]
   \<and> call_option (mount_call (step (mount_component example_size_props) (Resize 800 600))) ''dpr''
       = Some (JNum 2)"
proof -
  have h: "map_of (pick (rest_props example_size_props) CANVAS_PROPS) ''dpr'' = Some (JNum 2)"
    "map_of (omit (rest_props example_size_props) CANVAS_PROPS) ''className'' = Some (JStr ''stage'')"
    "calls_of (mount_component example_size_props) (Resize 800 600)
       = [mount_call (step (mount_component example_size_props) (Resize 800 600))]"
    "props (step (mount_component example_size_props) (Resize 800 600)) = example_size_props"
    "''dpr'' \<noteq> ''size''"
    "map_of (rest_props example_size_props) ''children'' = None"
    by code_simp+
  from h
    C8_attribute_split [of example_size_props "''dpr''" "JNum 2" "mount_component example_size_props"
      800 600 False "mount_component example_size_props" "Resize 800 600"]
    C8_attribute_split [of example_size_props "''className''" "JStr ''stage''"
      "mount_component example_size_props"
      800 600 False "mount_component example_size_props" "Resize 800 600"]
  show ?thesis
    by (simp split: if_splits)
qed

section \<open>The visibility observer\<close>

lemma wf_sync_reachable: "wf_sync (run (mount_component ps) es)"
  by (simp add: wf_run wf_mount_component)


lemma observing_completes:
  assumes "alive (run (mount_component ps) es)" and "completes (run (mount_component ps) es)"
  shows "observing (run (mount_component ps) es)
     = truthy (get (props (run (mount_component ps) es)) ''intersect'')"
  using assms wf_effects_reachable [of ps es] wf_sync_reachable [of ps es]
  by (simp add: wf_effects_def wf_sync_def split: option.splits)







section \<open>The forwarded frame-loop mode\<close>

lemma deps_fresh_reachable:
  "alive (run (mount_component ps) es) \<Longrightarrow> deps_fresh (run (mount_component ps) es)"
  using wf_effects_reachable [of ps es] by (simp add: wf_effects_def)

lemma deps_fresh_update [simp]:
  "deps_fresh (s\<lparr>visible := b\<rparr>) = deps_fresh s"
  "deps_fresh (s\<lparr>props := ps\<rparr>) = deps_fresh s"
  "deps_fresh (s\<lparr>width := w, height := h\<rparr>) = deps_fresh s"
  by (simp_all add: deps_fresh_def split: option.splits)

lemma completes_update [simp]:
  "completes (s\<lparr>visible := b\<rparr>) = completes s"
  "completes (s\<lparr>props := ps\<rparr>) = completes s"
  "completes (s\<lparr>width := w, height := h\<rparr>) = completes s"
  by (simp_all add: completes_def)

lemma mount_call_frameloop:
  "call_option (mount_call s) ''frameloop'' =
     Some (if shouldRender (props s) (visible s) then get (props s) ''frameloop''
           else JStr ''never'')"
  by (simp add: call_option_mount_call map_of_mount_options)

lemma visibility_change_mounts:
  assumes "alive s" and "completes s" and "deps_fresh s" and "observing s"
    and "0 < width s" and "0 < height s" and "b \<noteq> visible s"
  shows "calls_of s (Intersection (b # bs)) = [mount_call (step s (Intersection (b # bs)))]"
    and "mount_call (step s (Intersection (b # bs))) = mount_call (s\<lparr>visible := b\<rparr>)"
  using assms by (simp_all add: calls_of_Intersection fires_fresh)

theorem C3_counterexample:
  "calls (run (mount_component example_never_props) [Resize 800 600])
     = [Render (JObj 1) (JElem ''canvas'')
          [(''size'', JLit [(''width'', JNum 800), (''height'', JNum 600)]),
           (''events'', JImport ''createPointerEvents''),
           (''frameloop'', JStr ''never'')]]
   \<and> shouldRender (props (run (mount_component example_never_props) [Resize 800 600]))
         (visible (run (mount_component example_never_props) [Resize 800 600]))"
  by code_simp

text \<open>
  C3, as amended. Every \<^verbatim>\<open>render\<close> call an event leads to forwards \<^verbatim>\<open>'never'\<close> as the
  frame-loop mode if \<open>shouldRender\<close> is false, that is if \<^verbatim>\<open>intersect\<close> is truthy and the
  visibility flag is false, and the caller's mode otherwise (which may itself be
  \<^verbatim>\<open>'never'\<close>). For a mounted instance that is gated, is not throwing and has a positive
  size: when the observer reports that the container has left the viewport, exactly one
  call is made and it forwards \<^verbatim>\<open>'never'\<close>; when it reports that the container is back,
  exactly one call is made and it forwards the caller's mode.
\<close>

theorem C3_frameloop_forwarded:
  "(\<forall>c \<in> set (calls_of s e). is_mount c \<longrightarrow>
       call_option c ''frameloop''
         = Some (if shouldRender (props (step s e)) (visible (step s e))
                 then get (props (step s e)) ''frameloop'' else JStr ''never''))
   \<and> (\<not> shouldRender qs vis) = (truthy (get qs ''intersect'') \<and> \<not> vis)
   \<and> (alive (run (mount_component ps) es) \<and> completes (run (mount_component ps) es)
       \<and> truthy (get (props (run (mount_component ps) es)) ''intersect'')
       \<and> 0 < width (run (mount_component ps) es) \<and> 0 < height (run (mount_component ps) es)
       \<and> visible (run (mount_component ps) es) \<longrightarrow>
         calls_of (run (mount_component ps) es) (Intersection (False # bs))
           = [mount_call (step (run (mount_component ps) es) (Intersection (False # bs)))]
         \<and> call_option
              (mount_call (step (run (mount_component ps) es) (Intersection (False # bs))))
              ''frameloop'' = Some (JStr ''never''))
   \<and> (alive (run (mount_component ps) es) \<and> completes (run (mount_component ps) es)
       \<and> truthy (get (props (run (mount_component ps) es)) ''intersect'')
       \<and> 0 < width (run (mount_component ps) es) \<and> 0 < height (run (mount_component ps) es)
       \<and> \<not> visible (run (mount_component ps) es) \<longrightarrow>
         calls_of (run (mount_component ps) es) (Intersection (True # bs))
           = [mount_call (step (run (mount_component ps) es) (Intersection (True # bs)))]
         \<and> call_option
              (mount_call (step (run (mount_component ps) es) (Intersection (True # bs))))
              ''frameloop'' = Some (get (props (run (mount_component ps) es)) ''frameloop''))"
proof (intro conjI impI ballI)
  fix c
  assume "c \<in> set (calls_of s e)" and "is_mount c"
  then have "c = mount_call (step s e)"
    by (rule mounts_of_step)
  then show "call_option c ''frameloop''
         = Some (if shouldRender (props (step s e)) (visible (step s e))
                 then get (props (step s e)) ''frameloop'' else JStr ''never'')"
    by (simp only: mount_call_frameloop)
next
  show "(\<not> shouldRender qs vis) = (truthy (get qs ''intersect'') \<and> \<not> vis)"
    by (simp add: shouldRender_def)
next
  let ?R = "run (mount_component ps) es"
  assume a: "alive ?R \<and> completes ?R \<and> truthy (get (props ?R) ''intersect'')
       \<and> 0 < width ?R \<and> 0 < height ?R \<and> visible ?R"
  then have f: "deps_fresh ?R" and o: "observing ?R"
    by (simp_all add: deps_fresh_reachable observing_completes)
  from a f o show "calls_of ?R (Intersection (False # bs))
      = [mount_call (step ?R (Intersection (False # bs)))]"
    by (intro visibility_change_mounts) simp_all
  from a f o have "mount_call (step ?R (Intersection (False # bs)))
      = mount_call (?R\<lparr>visible := False\<rparr>)"
    by (intro visibility_change_mounts) simp_all
  with a show "call_option (mount_call (step ?R (Intersection (False # bs)))) ''frameloop''
      = Some (JStr ''never'')"
    by (simp add: mount_call_frameloop shouldRender_def)
next
  let ?R = "run (mount_component ps) es"
  assume a: "alive ?R \<and> completes ?R \<and> truthy (get (props ?R) ''intersect'')
       \<and> 0 < width ?R \<and> 0 < height ?R \<and> \<not> visible ?R"
  then have f: "deps_fresh ?R" and o: "observing ?R"
    by (simp_all add: deps_fresh_reachable observing_completes)
  from a f o show "calls_of ?R (Intersection (True # bs))
      = [mount_call (step ?R (Intersection (True # bs)))]"
    by (intro visibility_change_mounts) simp_all
  from a f o have "mount_call (step ?R (Intersection (True # bs)))
      = mount_call (?R\<lparr>visible := True\<rparr>)"
    by (intro visibility_change_mounts) simp_all
  with a show "call_option (mount_call (step ?R (Intersection (True # bs)))) ''frameloop''
      = Some (get (props ?R) ''frameloop'')"
    by (simp add: mount_call_frameloop shouldRender_def)
qed


theorem C3_witness:
  "alive (run (mount_component example_gated_props) [Resize 800 600, Intersection [True]])
   \<and> completes (run (mount_component example_gated_props) [Resize 800 600, Intersection [True]])
   \<and> truthy (get (props (run (mount_component example_gated_props)
         [Resize 800 600, Intersection [True]])) ''intersect'')
   \<and> 0 < width (run (mount_component example_gated_props) [Resize 800 600, Intersection [True]])
   \<and> 0 < height (run (mount_component example_gated_props) [Resize 800 600, Intersection [True]])
   \<and> visible (run (mount_component example_gated_props) [Resize 800 600, Intersection [True]])
   \<and> call_option
        (mount_call (step (run (mount_component example_gated_props)
           [Resize 800 600, Intersection [True]]) (Intersection [False])))
        ''frameloop'' = Some (JStr ''never'')
   \<and> \<not> visible (run (mount_component example_gated_props)
         [Resize 800 600, Intersection [True], Intersection [False]])
   \<and> call_option
        (mount_call (step (run (mount_component example_gated_props)
           [Resize 800 600, Intersection [True], Intersection [False]]) (Intersection [True])))
        ''frameloop'' = Some (JStr ''demand'')"
  supply run_Cons [simp del] run_Nil [simp del] step.simps [simp del]
proof -
  have h: "alive (run (mount_component example_gated_props) [Resize 800 600, Intersection [True]])"
    "completes (run (mount_component example_gated_props) [Resize 800 600, Intersection [True]])"
    "truthy (get (props (run (mount_component example_gated_props)
         [Resize 800 600, Intersection [True]])) ''intersect'')"
    "0 < width (run (mount_component example_gated_props) [Resize 800 600, Intersection [True]])"
    "0 < height (run (mount_component example_gated_props) [Resize 800 600, Intersection [True]])"
    "visible (run (mount_component example_gated_props) [Resize 800 600, Intersection [True]])"
    by code_simp+
  have k: "alive (run (mount_component example_gated_props)
         [Resize 800 600, Intersection [True], Intersection [False]])"
    "completes (run (mount_component example_gated_props)
         [Resize 800 600, Intersection [True], Intersection [False]])"
    "truthy (get (props (run (mount_component example_gated_props)
         [Resize 800 600, Intersection [True], Intersection [False]])) ''intersect'')"
    "0 < width (run (mount_component example_gated_props)
         [Resize 800 600, Intersection [True], Intersection [False]])"
    "0 < height (run (mount_component example_gated_props)
         [Resize 800 600, Intersection [True], Intersection [False]])"
    "\<not> visible (run (mount_component example_gated_props)
         [Resize 800 600, Intersection [True], Intersection [False]])"
    "get (props (run (mount_component example_gated_props)
         [Resize 800 600, Intersection [True], Intersection [False]])) ''frameloop''
       = JStr ''demand''"
    by code_simp+
  from h C3_frameloop_forwarded
    [of "mount_component example_gated_props" "Resize 800 600" example_gated_props False
      example_gated_props "[Resize 800 600, Intersection [True]]" "[]"]
  have 1: "call_option
        (mount_call (step (run (mount_component example_gated_props)
           [Resize 800 600, Intersection [True]]) (Intersection [False])))
        ''frameloop'' = Some (JStr ''never'')"
    by blast
  from k C3_frameloop_forwarded
    [of "mount_component example_gated_props" "Resize 800 600" example_gated_props False
      example_gated_props "[Resize 800 600, Intersection [True], Intersection [False]]" "[]"]
  have 2: "call_option
        (mount_call (step (run (mount_component example_gated_props)
           [Resize 800 600, Intersection [True], Intersection [False]]) (Intersection [True])))
        ''frameloop'' = Some (JStr ''demand'')"
    by simp
  from h k 1 2 show ?thesis
    by blast
qed

section \<open>Switching the gating on\<close>

lemma props_change_mounts:
  assumes "alive s" and "completes s" and "deps_fresh s" and "0 < width s" and "0 < height s"
  shows "calls_of s (SetProps qs) = [mount_call (step s (SetProps qs))]"
    and "mount_call (step s (SetProps qs)) = mount_call (s\<lparr>props := qs\<rparr>)"
  using assms by (simp_all add: calls_of_SetProps fires_fresh)




section \<open>What re-fires the mount\<close>

lemma step_Resize_same:
  "w = width s \<Longrightarrow> h = height s \<Longrightarrow> step s (Resize w h) = s"
  by (simp add: schedule_def hook_state_def)

lemma calls_of_Resize_same:
  "w = width s \<Longrightarrow> h = height s \<Longrightarrow> calls_of s (Resize w h) = []"
  by (simp add: calls_of_Resize)

lemma calls_of_Resize_nonpositive:
  "\<not> (0 < w \<and> 0 < h) \<Longrightarrow> calls_of s (Resize w h) = []"
  by (auto simp add: calls_of_Resize fires_def)

lemma resize_mounts:
  assumes "alive s" and "completes s" and "deps_fresh s"
    and "w \<noteq> width s \<or> h \<noteq> height s" and "0 < w" and "0 < h"
  shows "calls_of s (Resize w h) = [mount_call (step s (Resize w h))]"
    and "mount_call (step s (Resize w h)) = mount_call (s\<lparr>width := w, height := h\<rparr>)"
  using assms by (simp_all add: calls_of_Resize fires_fresh)

lemma mount_component_fields [simp]:
  "props (mount_component ps) = ps"
  "width (mount_component ps) = 0"
  "height (mount_component ps) = 0"
  "\<not> visible (mount_component ps)"
  "block (mount_component ps) = JBool False"
  "error (mount_component ps) = JBool False"
  "calls (mount_component ps) = []"
  "completes (mount_component ps)"
  by (simp_all add: mount_component_def rerender_calls fires_def completes_def)

lemma deps_fresh_mount_component: "deps_fresh (mount_component ps)"
  using deps_fresh_reachable [of ps "[]"] by simp


lemma scenario_calls:
  "calls (run (mount_component ps) [Resize 0 0]) = []"
  "calls (run (mount_component ps) [Resize 0 0, Resize 800 600])
     = [Render (get ps ''children'') (JElem ''canvas'')
          (mount_options ps (pick (rest_props ps) CANVAS_PROPS) 800 600 False)]"
  "calls (run (mount_component ps) [Resize 0 0, Resize 800 600, Resize 800 600])
     = calls (run (mount_component ps) [Resize 0 0, Resize 800 600])"
  "calls (run (mount_component ps) [Resize 0 0, Resize 800 600, Resize 800 600, Resize 0 0])
     = calls (run (mount_component ps) [Resize 0 0, Resize 800 600])"
proof -
  let ?M = "mount_component ps"
  let ?S = "step ?M (Resize 800 600)"
  have 0: "step ?M (Resize 0 0) = ?M"
    by (rule step_Resize_same) simp_all
  have 1: "calls_of ?M (Resize 800 600) = [mount_call ?S]"
    by (rule resize_mounts) (simp_all add: deps_fresh_mount_component)
  have 2: "mount_call ?S = mount_call (?M\<lparr>width := 800, height := 600\<rparr>)"
    by (rule resize_mounts) (simp_all add: deps_fresh_mount_component)
  have 3: "step ?S (Resize 800 600) = ?S"
    by (rule step_Resize_same) simp_all
  have 4: "calls_of ?S (Resize 0 0) = []"
    by (rule calls_of_Resize_nonpositive) simp
  show "calls (run ?M [Resize 0 0]) = []"
    by (simp only: run_Cons run_Nil 0 mount_component_fields)
  show 5: "calls (run ?M [Resize 0 0, Resize 800 600])
     = [Render (get ps ''children'') (JElem ''canvas'')
          (mount_options ps (pick (rest_props ps) CANVAS_PROPS) 800 600 False)]"
    using calls_step [of ?M "Resize 800 600"]
    by (simp only: run_Cons run_Nil 0 1 2) (simp add: mount_call_def)
  show "calls (run ?M [Resize 0 0, Resize 800 600, Resize 800 600])
     = calls (run ?M [Resize 0 0, Resize 800 600])"
    by (simp only: run_Cons run_Nil 0 3)
  show "calls (run ?M [Resize 0 0, Resize 800 600, Resize 800 600, Resize 0 0])
     = calls (run ?M [Resize 0 0, Resize 800 600])"
    using calls_step [of ?S "Resize 0 0"]
    by (simp only: run_Cons run_Nil 0 3 4 append_Nil2)
qed

theorem C2_counterexample:
  "calls (run (mount_component example_props) [Resize 800 600, SetProps example_dpr_props])
     = [Render (JObj 1) (JElem ''canvas'')
          [(''size'', JLit [(''width'', JNum 800), (''height'', JNum 600)]),
           (''events'', JImport ''createPointerEvents''),
           (''frameloop'', JUndefined)],
        Render (JObj 1) (JElem ''canvas'')
          [(''dpr'', JNum 2),
           (''size'', JLit [(''width'', JNum 800), (''height'', JNum 600)]),
           (''events'', JImport ''createPointerEvents''),
           (''frameloop'', JUndefined)]]
   \<and> get example_dpr_props ''children'' = get example_props ''children''
   \<and> visible (run (mount_component example_props) [Resize 800 600, SetProps example_dpr_props])
       = visible (run (mount_component example_props) [Resize 800 600])"
  by code_simp

text \<open>
  C2, as amended. A mounted instance that is not throwing makes exactly one \<^verbatim>\<open>render\<close>
  call, with the values of that moment, when a report changes the measured size to a
  positive one, when (the size being positive) a delivery of the observer changes the
  visibility flag, and when (the size being positive) the parent passes props whose child
  tree reference or whose picked options differ from the current ones. A report that
  repeats the measured size, or whose width or height is not positive, makes no call.
  For the reports (0,0), (800,600), (800,600), (0,0) to a new instance the bridge
  receives exactly one call, a \<^verbatim>\<open>render\<close> with the size 800 by 600 made at the second
  report; the third and the fourth report add nothing, and no unmount is called.
\<close>

theorem C2_mount_refired:
  "(alive (run (mount_component ps) es) \<and> completes (run (mount_component ps) es)
      \<and> (w \<noteq> width (run (mount_component ps) es) \<or> h \<noteq> height (run (mount_component ps) es))
      \<and> 0 < w \<and> 0 < h \<longrightarrow>
        calls_of (run (mount_component ps) es) (Resize w h)
          = [mount_call (step (run (mount_component ps) es) (Resize w h))])
   \<and> (alive (run (mount_component ps) es) \<and> completes (run (mount_component ps) es)
      \<and> 0 < width (run (mount_component ps) es) \<and> 0 < height (run (mount_component ps) es)
      \<and> observing (run (mount_component ps) es) \<and> b \<noteq> visible (run (mount_component ps) es)
      \<longrightarrow>
        calls_of (run (mount_component ps) es) (Intersection (b # bs))
          = [mount_call (step (run (mount_component ps) es) (Intersection (b # bs)))])
   \<and> (alive (run (mount_component ps) es) \<and> completes (run (mount_component ps) es)
      \<and> 0 < width (run (mount_component ps) es) \<and> 0 < height (run (mount_component ps) es)
      \<and> (get qs ''children'' \<noteq> get (props (run (mount_component ps) es)) ''children''
          \<or> pick (rest_props qs) CANVAS_PROPS
              \<noteq> pick (rest_props (props (run (mount_component ps) es))) CANVAS_PROPS)
      \<longrightarrow>
        calls_of (run (mount_component ps) es) (SetProps qs)
          = [mount_call (step (run (mount_component ps) es) (SetProps qs))])
   \<and> (w = width s \<and> h = height s \<longrightarrow> calls_of s (Resize w h) = [])
   \<and> (\<not> (0 < w \<and> 0 < h) \<longrightarrow> calls_of s (Resize w h) = [])
   \<and> calls (run (mount_component ps) [Resize 0 0]) = []
   \<and> calls (run (mount_component ps) [Resize 0 0, Resize 800 600])
       = [Render (get ps ''children'') (JElem ''canvas'')
            (mount_options ps (pick (rest_props ps) CANVAS_PROPS) 800 600 False)]
   \<and> calls (run (mount_component ps) [Resize 0 0, Resize 800 600, Resize 800 600])
       = calls (run (mount_component ps) [Resize 0 0, Resize 800 600])
   \<and> calls (run (mount_component ps) [Resize 0 0, Resize 800 600, Resize 800 600, Resize 0 0])
       = calls (run (mount_component ps) [Resize 0 0, Resize 800 600])"
proof (intro conjI impI)
  let ?R = "run (mount_component ps) es"
  assume a: "alive ?R \<and> completes ?R \<and> (w \<noteq> width ?R \<or> h \<noteq> height ?R) \<and> 0 < w \<and> 0 < h"
  then have "deps_fresh ?R"
    by (simp add: deps_fresh_reachable)
  with a show "calls_of ?R (Resize w h) = [mount_call (step ?R (Resize w h))]"
    by (intro resize_mounts) simp_all
next
  let ?R = "run (mount_component ps) es"
  assume a: "alive ?R \<and> completes ?R \<and> 0 < width ?R \<and> 0 < height ?R
      \<and> observing ?R \<and> b \<noteq> visible ?R"
  then have "deps_fresh ?R"
    by (simp add: deps_fresh_reachable)
  with a show "calls_of ?R (Intersection (b # bs)) = [mount_call (step ?R (Intersection (b # bs)))]"
    by (intro visibility_change_mounts) simp_all
next
  let ?R = "run (mount_component ps) es"
  assume a: "alive ?R \<and> completes ?R \<and> 0 < width ?R \<and> 0 < height ?R
      \<and> (get qs ''children'' \<noteq> get (props ?R) ''children''
          \<or> pick (rest_props qs) CANVAS_PROPS \<noteq> pick (rest_props (props ?R)) CANVAS_PROPS)"
  then have "deps_fresh ?R"
    by (simp add: deps_fresh_reachable)
  with a show "calls_of ?R (SetProps qs) = [mount_call (step ?R (SetProps qs))]"
    by (intro props_change_mounts) simp_all
next
  assume "w = width s \<and> h = height s"
  then show "calls_of s (Resize w h) = []"
    by (simp add: calls_of_Resize_same)
next
  assume "\<not> (0 < w \<and> 0 < h)"
  then show "calls_of s (Resize w h) = []"
    by (rule calls_of_Resize_nonpositive)
qed (rule scenario_calls)+


theorem C2_witness:
  "alive example_visible \<and> completes example_visible
   \<and> 0 < width example_visible \<and> 0 < height example_visible \<and> observing example_visible \<and> visible example_visible
   \<and> pick (rest_props example_dpr_props) CANVAS_PROPS \<noteq> pick (rest_props (props example_visible)) CANVAS_PROPS
   \<and> calls_of example_visible (Resize 640 480) = [mount_call (step example_visible (Resize 640 480))]
   \<and> calls_of example_visible (Intersection [False]) = [mount_call (step example_visible (Intersection [False]))]
   \<and> calls_of example_visible (SetProps example_dpr_props) = [mount_call (step example_visible (SetProps example_dpr_props))]
   \<and> calls_of example_visible (Resize 800 600) = []
   \<and> calls_of example_visible (Resize 0 600) = []
   \<and> calls (run (mount_component example_props)
        [Resize 0 0, Resize 800 600, Resize 800 600, Resize 0 0])
       = [Render (JObj 1) (JElem ''canvas'')
            [(''size'', JLit [(''width'', JNum 800), (''height'', JNum 600)]),
             (''events'', JImport ''createPointerEvents''),
             (''frameloop'', JUndefined)]]"
  supply run_Cons [simp del] run_Nil [simp del] step.simps [simp del]
proof -
  have h: "alive example_visible" "completes example_visible" "0 < width example_visible" "0 < height example_visible" "observing example_visible" "visible example_visible"
    "pick (rest_props example_dpr_props) CANVAS_PROPS \<noteq> pick (rest_props (props example_visible)) CANVAS_PROPS"
    "width example_visible = 800" "height example_visible = 600"
    by code_simp+
  have o: "Render (get example_props ''children'') (JElem ''canvas'')
            (mount_options example_props (pick (rest_props example_props) CANVAS_PROPS) 800 600 False)
      = Render (JObj 1) (JElem ''canvas'')
            [(''size'', JLit [(''width'', JNum 800), (''height'', JNum 600)]),
             (''events'', JImport ''createPointerEvents''),
             (''frameloop'', JUndefined)]"
    by code_simp
  note t = C2_mount_refired [of example_gated_props "[Resize 800 600, Intersection [True]]",
      folded example_visible_def]
  from h t [of 640 480 False "[]" example_dpr_props example_visible]
  have 1: "calls_of example_visible (Resize 640 480) = [mount_call (step example_visible (Resize 640 480))]"
    "calls_of example_visible (Intersection [False]) = [mount_call (step example_visible (Intersection [False]))]"
    "calls_of example_visible (SetProps example_dpr_props) = [mount_call (step example_visible (SetProps example_dpr_props))]"
    by simp_all
  from h t [of 800 600 False "[]" example_dpr_props example_visible]
  have 2: "calls_of example_visible (Resize 800 600) = []"
    by simp
  from h t [of 0 600 False "[]" example_dpr_props example_visible]
  have 3: "calls_of example_visible (Resize 0 600) = []"
    by simp
  from C2_mount_refired [of example_props "[]" 0 0 False "[]" example_props example_visible]
  have 4: "calls (run (mount_component example_props)
        [Resize 0 0, Resize 800 600, Resize 800 600, Resize 0 0])
      = [Render (get example_props ''children'') (JElem ''canvas'')
            (mount_options example_props (pick (rest_props example_props) CANVAS_PROPS) 800 600 False)]"
    by simp
  from h 1 2 3 4 o show ?thesis
    by simp
qed

section \<open>Size reports\<close>

lemma mount_sizes_append [simp]: "mount_sizes (xs @ ys) = mount_sizes xs @ mount_sizes ys"
  by (simp add: mount_sizes_def)

lemma mount_sizes_Nil [simp]: "mount_sizes [] = []"
  by (simp add: mount_sizes_def)

lemma mount_sizes_mount_call [simp]:
  "mount_sizes [mount_call s] = [Some (size_literal (width s, height s))]"
  by (simp add: mount_sizes_def call_option_mount_call map_of_mount_options)

lemma step_report_fields:
  "alive s \<Longrightarrow> width (step s (report r)) = fst r"
  "alive s \<Longrightarrow> height (step s (report r)) = snd r"
  "completes (step s (report r)) = completes s"
  by (simp_all add: report_def completes_def)

lemma calls_step_report:
  assumes "alive s" and "completes s" and "deps_fresh s"
  shows "calls (step s (report r)) =
     calls s @ (if r \<noteq> (width s, height s) \<and> positive r
                then [mount_call (step s (report r))] else [])"
proof (cases "r \<noteq> (width s, height s) \<and> positive r")
  case True
  then have "fst r \<noteq> width s \<or> snd r \<noteq> height s" and "0 < fst r" and "0 < snd r"
    by (auto simp add: positive_def prod_eq_iff)
  with assms have "calls_of s (Resize (fst r) (snd r))
      = [mount_call (step s (Resize (fst r) (snd r)))]"
    by (intro resize_mounts)
  with True show ?thesis
    using calls_step [of s "report r"] by (simp add: report_def)
next
  case False
  then have "calls_of s (Resize (fst r) (snd r)) = []"
    by (cases r) (auto simp add: positive_def calls_of_Resize_same calls_of_Resize_nonpositive)
  with False show ?thesis
    using calls_step [of s "report r"] by (simp add: report_def)
qed

lemma filter_remdups_adj_head:
  "filter P (remdups_adj (x # xs)) =
     (if P x then [x] else []) @ filter P (tl (remdups_adj (x # xs)))"
proof -
  define ys where "ys = tl (remdups_adj (x # xs))"
  have "remdups_adj (x # xs) = x # ys"
    by (simp add: ys_def)
  then show ?thesis
    by (cases "P x") (simp_all only: ys_def [symmetric] list.sel filter.simps append_Cons
        append_Nil if_True if_False)
qed

lemma mount_sizes_reports:
  assumes "alive s" and "completes s" and "wf_effects s"
  shows "mount_sizes (calls (run s (map report rs))) =
     mount_sizes (calls s) @
       map (\<lambda>r. Some (size_literal r)) (filter positive (tl (remdups_adj ((width s, height s) # rs))))"
  using assms
proof (induction rs arbitrary: s)
  case Nil
  then show ?case by simp
next
  case (Cons r rs)
  let ?s = "step s (report r)"
  from Cons.prems have f: "deps_fresh s"
    by (simp add: wf_effects_def)
  from Cons.prems have a: "alive ?s" "completes ?s"
    by (simp_all add: report_def completes_def)
  from Cons.prems have w: "wf_effects ?s"
    by (intro wf_effects_step)
  from Cons.prems have wh: "width ?s = fst r" "height ?s = snd r"
    by (simp_all add: step_report_fields)
  have ih: "mount_sizes (calls (run ?s (map report rs))) =
     mount_sizes (calls ?s) @
       map (\<lambda>r. Some (size_literal r)) (filter positive (tl (remdups_adj (r # rs))))"
    using Cons.IH [OF a w] by (simp add: wh)
  show ?case
  proof (cases "r = (width s, height s)")
    case True
    with Cons.prems f have "calls ?s = calls s"
      by (simp add: calls_step_report)
    with True ih show ?thesis
      by simp
  next
    case False
    have t: "tl (remdups_adj ((width s, height s) # r # rs)) = r # tl (remdups_adj (r # rs))"
      using False by simp
    from Cons.prems f False have "mount_sizes (calls ?s) =
        mount_sizes (calls s) @ (if positive r then [Some (size_literal r)] else [])"
      by (simp add: calls_step_report wh)
    with ih show ?thesis
      by (simp add: t filter_remdups_adj_head [of positive r rs] del: remdups_adj.simps)
  qed
qed

lemma mount_sizes_from_mount:
  "mount_sizes (calls (run (mount_component ps) (map report rs))) =
     map (\<lambda>r. Some (size_literal r)) (filter positive (remdups_adj ((0, 0) # rs)))"
proof -
  have "filter positive (remdups_adj ((0, 0) # rs))
      = filter positive (tl (remdups_adj ((0, 0) # rs)))"
    by (simp add: filter_remdups_adj_head [of positive "(0, 0)" rs] positive_def
        del: remdups_adj.simps)
  then show ?thesis
    using mount_sizes_reports [of "mount_component ps" rs]
    by (simp add: wf_mount_component)
qed

section \<open>Size reports and the size guard\<close>

lemma mounts_positive:
  assumes "c \<in> set (calls_of s e)" and "is_mount c"
  shows "0 < width (step s e) \<and> 0 < height (step s e)"
proof (cases e)
  case (Resize w h)
  with assms show ?thesis
    by (simp add: calls_of_Resize fires_def split: if_splits)
next
  case (Intersection entries)
  with assms show ?thesis
    by (cases entries) (simp_all add: calls_of_Intersection fires_def split: if_splits)
next
  case (SetProps ps)
  with assms show ?thesis
    by (simp add: calls_of_SetProps fires_def split: if_splits)
next
  case Suspend
  with assms show ?thesis
    by (simp add: calls_of_Suspend)
next
  case Resume
  with assms show ?thesis
    by (simp add: calls_of_Resume fires_def split: if_splits)
next
  case (ChildThrows x)
  with assms show ?thesis
    by (simp add: calls_of_def calls_schedule fires_def split: if_splits)
next
  case Teardown
  with assms(1) have "c \<in> set (calls_of s Teardown)" by simp
  then have "\<not> is_mount c"
    by (cases "alive s"; cases "unmount_container s") (simp_all add: calls_of_Teardown)
  with assms(2) show ?thesis by simp
qed

lemma reports_state:
  assumes "alive s" and "completes s"
  shows "alive (run s (map report rs)) \<and> completes (run s (map report rs))"
  using assms
  by (induction rs arbitrary: s) (simp_all add: report_def completes_def)

lemma size_literal_inject [simp]: "(size_literal r = size_literal r') = (r = r')"
  by (simp add: size_literal_def prod_eq_iff)

lemma last_filter_keeps:
  "xs \<noteq> [] \<Longrightarrow> P (last xs) \<Longrightarrow> filter P xs \<noteq> [] \<and> last (filter P xs) = last xs"
  by (induction xs) (auto split: if_splits)

lemma last_mount_sizes:
  assumes "rs \<noteq> []"
  shows "(mount_sizes (calls (run (mount_component ps) (map report rs))) \<noteq> []
          \<and> last (mount_sizes (calls (run (mount_component ps) (map report rs))))
              = Some (size_literal (last rs)))
         = positive (last rs)"
proof -
  let ?xs = "remdups_adj ((0, 0) # rs)"
  have l: "last ?xs = last rs"
    using assms by simp
  have m: "mount_sizes (calls (run (mount_component ps) (map report rs)))
      = map (\<lambda>r. Some (size_literal r)) (filter positive ?xs)"
    by (rule mount_sizes_from_mount)
  show ?thesis
  proof (cases "positive (last rs)")
    case True
    have "?xs \<noteq> []"
      by simp
    moreover from True l have "positive (last ?xs)"
      by (simp only:)
    ultimately have "filter positive ?xs \<noteq> [] \<and> last (filter positive ?xs) = last ?xs"
      by (rule last_filter_keeps)
    with l have "filter positive ?xs \<noteq> []" and "last (filter positive ?xs) = last rs"
      by auto
    then show ?thesis
      using True by (simp add: m last_map del: remdups_adj.simps)
  next
    case False
    have "filter positive ?xs \<noteq> [] \<Longrightarrow> last (filter positive ?xs) \<noteq> last rs"
    proof
      assume n: "filter positive ?xs \<noteq> []" and e: "last (filter positive ?xs) = last rs"
      from n have "last (filter positive ?xs) \<in> set (filter positive ?xs)"
        by (rule last_in_set)
      with e False show False
        by simp
    qed
    with False show ?thesis
      by (auto simp add: m last_map simp del: remdups_adj.simps)
  qed
qed

text \<open>
  C1. For every sequence of size reports to a new instance: the latest \<^verbatim>\<open>render\<close> call of
  the bridge is one for the most recently reported size exactly if that size has a
  positive width and a positive height; the sizes handed to \<^verbatim>\<open>render\<close> are, in order, the
  positive ones among the reported changes of size; and the next report leads to a call
  exactly if it changes the measured size and its width and height are positive. In any
  state whatever, a report whose width or height is not positive leads to no call, and
  every \<^verbatim>\<open>render\<close> call that any event leads to is made with a positive measured width and
  height, which it passes as the size.
\<close>

theorem C1_mount_iff_positive_size:
  "(rs \<noteq> [] \<longrightarrow>
      (mount_sizes (calls (run (mount_component ps) (map report rs))) \<noteq> []
       \<and> last (mount_sizes (calls (run (mount_component ps) (map report rs))))
           = Some (size_literal (last rs)))
      = positive (last rs))
   \<and> mount_sizes (calls (run (mount_component ps) (map report rs)))
       = map (\<lambda>r. Some (size_literal r)) (filter positive (remdups_adj ((0, 0) # rs)))
   \<and> (calls_of (run (mount_component ps) (map report rs)) (Resize w h) \<noteq> [])
       = ((w \<noteq> width (run (mount_component ps) (map report rs))
           \<or> h \<noteq> height (run (mount_component ps) (map report rs)))
          \<and> 0 < w \<and> 0 < h)
   \<and> (\<not> (0 < w \<and> 0 < h) \<longrightarrow> calls_of s (Resize w h) = [])
   \<and> (\<forall>c \<in> set (calls_of s e). is_mount c \<longrightarrow>
         0 < width (step s e) \<and> 0 < height (step s e)
         \<and> call_option c ''size'' = Some (size_literal (width (step s e), height (step s e))))"
proof (intro conjI impI ballI)
  assume "rs \<noteq> []"
  then show "(mount_sizes (calls (run (mount_component ps) (map report rs))) \<noteq> []
       \<and> last (mount_sizes (calls (run (mount_component ps) (map report rs))))
           = Some (size_literal (last rs)))
      = positive (last rs)"
    by (rule last_mount_sizes)
next
  show "mount_sizes (calls (run (mount_component ps) (map report rs)))
       = map (\<lambda>r. Some (size_literal r)) (filter positive (remdups_adj ((0, 0) # rs)))"
    by (rule mount_sizes_from_mount)
next
  let ?R = "run (mount_component ps) (map report rs)"
  have a: "alive ?R \<and> completes ?R"
    by (rule reports_state) simp_all
  then have f: "deps_fresh ?R"
    by (simp add: deps_fresh_reachable)
  show "(calls_of ?R (Resize w h) \<noteq> [])
       = ((w \<noteq> width ?R \<or> h \<noteq> height ?R) \<and> 0 < w \<and> 0 < h)"
  proof (cases "(w \<noteq> width ?R \<or> h \<noteq> height ?R) \<and> 0 < w \<and> 0 < h")
    case True
    with a f have "calls_of ?R (Resize w h) = [mount_call (step ?R (Resize w h))]"
      by (intro resize_mounts) simp_all
    with True show ?thesis
      by simp
  next
    case False
    then have "calls_of ?R (Resize w h) = []"
      by (auto simp add: calls_of_Resize_same calls_of_Resize_nonpositive)
    with False show ?thesis
      by simp
  qed
next
  assume "\<not> (0 < w \<and> 0 < h)"
  then show "calls_of s (Resize w h) = []"
    by (rule calls_of_Resize_nonpositive)
next
  fix c
  assume c: "c \<in> set (calls_of s e)" "is_mount c"
  then show "0 < width (step s e)" and "0 < height (step s e)"
    by (simp_all add: mounts_positive)
  from c have "c = mount_call (step s e)"
    by (rule mounts_of_step)
  then show "call_option c ''size'' = Some (size_literal (width (step s e), height (step s e)))"
    by (simp only: call_option_mount_call map_of_mount_options) simp
qed

theorem C1_witness:
  "positive (last [(0, 0), (800, 600), (800, 600)])
   \<and> mount_sizes (calls (run (mount_component example_props)
        (map report [(0, 0), (800, 600), (800, 600)]))) = [Some (size_literal (800, 600))]
   \<and> \<not> positive (last [(800, 600), (0, 600)])
   \<and> mount_sizes (calls (run (mount_component example_props)
        (map report [(800, 600), (0, 600)]))) = [Some (size_literal (800, 600))]
   \<and> calls_of (run (mount_component example_props) (map report [(800, 600)])) (Resize 0 600) = []
   \<and> calls_of (run (mount_component example_props) (map report [(800, 600)])) (Resize 640 480)
       \<noteq> []
   \<and> calls_of (mount_component example_props) (Resize 800 600)
       = [mount_call (step (mount_component example_props) (Resize 800 600))]
   \<and> 0 < width (step (mount_component example_props) (Resize 800 600))
   \<and> 0 < height (step (mount_component example_props) (Resize 800 600))"
  supply run_Cons [simp del] run_Nil [simp del] step.simps [simp del]
proof -
  have h: "positive (last [(0, 0), (800, 600), (800, 600)])"
    "\<not> positive (last [(800, 600), (0, 600)])"
    "filter positive (remdups_adj [(0, 0), (0, 0), (800, 600), (800, 600)]) = [(800, 600)]"
    "filter positive (remdups_adj [(0, 0), (800, 600), (0, 600)]) = [(800, 600)]"
    "calls_of (mount_component example_props) (Resize 800 600)
       = [mount_call (step (mount_component example_props) (Resize 800 600))]"
    "width (run (mount_component example_props) (map report [(800, 600)])) = 800"
    "height (run (mount_component example_props) (map report [(800, 600)])) = 600"
    by code_simp+
  from h C1_mount_iff_positive_size
    [of "[(0, 0), (800, 600), (800, 600)]" example_props 0 0 "mount_component example_props"
      "Resize 800 600"]
  have 1: "mount_sizes (calls (run (mount_component example_props)
        (map report [(0, 0), (800, 600), (800, 600)]))) = [Some (size_literal (800, 600))]"
    by simp
  from h C1_mount_iff_positive_size
    [of "[(800, 600), (0, 600)]" example_props 0 0 "mount_component example_props"
      "Resize 800 600"]
  have 2: "mount_sizes (calls (run (mount_component example_props)
        (map report [(800, 600), (0, 600)]))) = [Some (size_literal (800, 600))]"
    "0 < width (step (mount_component example_props) (Resize 800 600))"
    "0 < height (step (mount_component example_props) (Resize 800 600))"
    by simp_all
  from h C1_mount_iff_positive_size
    [of "[(800, 600)]" example_props 0 600 "mount_component example_props" "Resize 800 600"]
  have 3: "calls_of (run (mount_component example_props) (map report [(800, 600)]))
       (Resize 0 600) = []"
    by simp
  from h C1_mount_iff_positive_size
    [of "[(800, 600)]" example_props 640 480 "mount_component example_props" "Resize 800 600"]
  have 4: "calls_of (run (mount_component example_props) (map report [(800, 600)]))
       (Resize 640 480) \<noteq> []"
    by simp
  from h 1 2 3 4 show ?thesis
    by simp
qed

section \<open>A failure of the children\<close>

text \<open>The state of an instance whose boundary has caught the truthy value \<open>x\<close>.\<close>

lemma failed_step:
  assumes "alive s" and "boundary_error s" and "\<not> block_shown s"
    and "block s = JBool False" and "error s = x" and "truthy x" and "e \<noteq> Teardown"
  shows "alive (step s e) \<and> boundary_error (step s e) \<and> \<not> block_shown (step s e)
     \<and> block (step s e) = JBool False \<and> error (step s e) = x
     \<and> calls (step s e) = calls s"
proof (cases e)
  case (Resize w h)
  with assms show ?thesis
    by (simp add: calls_schedule fires_def completes_def)
next
  case (Intersection entries)
  with assms show ?thesis
    by (cases entries) (simp_all add: calls_schedule fires_def completes_def)
next
  case (SetProps qs)
  with assms show ?thesis
    by (simp add: rerender_calls fires_def completes_def)
next
  case Suspend
  with assms show ?thesis by simp
next
  case Resume
  with assms show ?thesis by simp
next
  case (ChildThrows y)
  with assms show ?thesis by simp
next
  case Teardown
  with assms show ?thesis by simp
qed

lemma failed_run:
  assumes "alive s" and "boundary_error s" and "\<not> block_shown s"
    and "block s = JBool False" and "error s = x" and "truthy x" and "Teardown \<notin> set es"
  shows "alive (run s es) \<and> block (run s es) = JBool False \<and> error (run s es) = x
     \<and> calls (run s es) = calls s"
  using assms
proof (induction es arbitrary: s)
  case Nil
  then show ?case by simp
next
  case (Cons e es)
  from Cons.prems have "e \<noteq> Teardown" and t: "Teardown \<notin> set es"
    by auto
  with Cons.prems have f: "alive (step s e) \<and> boundary_error (step s e)
     \<and> \<not> block_shown (step s e) \<and> block (step s e) = JBool False \<and> error (step s e) = x
     \<and> calls (step s e) = calls s"
    by (intro failed_step) simp_all
  with Cons.prems t have "alive (run (step s e) es) \<and> block (run (step s e) es) = JBool False
     \<and> error (run (step s e) es) = x \<and> calls (run (step s e) es) = calls (step s e)"
    by (intro Cons.IH) simp_all
  with f show ?case
    by simp
qed

lemma caught_state:
  assumes "wf_tree s" and "alive s" and "rendered s" and "\<not> boundary_error s" and "truthy x"
  shows "alive (step s (ChildThrows x)) \<and> boundary_error (step s (ChildThrows x))
     \<and> \<not> block_shown (step s (ChildThrows x)) \<and> block (step s (ChildThrows x)) = JBool False
     \<and> error (step s (ChildThrows x)) = x \<and> calls (step s (ChildThrows x)) = calls s"
proof -
  from assms have "calls_of s (ChildThrows x) = []"
    by (simp add: calls_of_ChildThrows)
  then have "calls (step s (ChildThrows x)) = calls s"
    using calls_step [of s "ChildThrows x"] by (simp only: append_Nil2)
  moreover from assms have "block (step s (ChildThrows x)) = JBool False"
    by (cases "block_shown s") (simp_all add: wf_tree_def)
  moreover from assms have "alive (step s (ChildThrows x)) \<and> boundary_error (step s (ChildThrows x))
     \<and> \<not> block_shown (step s (ChildThrows x)) \<and> error (step s (ChildThrows x)) = x"
    by (cases "block_shown s") simp_all
  ultimately show ?thesis
    by simp
qed

text \<open>
  C5. Let a mounted instance have a tree whose boundary has caught nothing, and let a child
  throw the value \<open>x\<close> while the tree is built, \<open>x\<close> being truthy as every object is.
  The boundary hands \<open>x\<close> to the component, whose next evaluation throws \<open>x\<close> itself; and
  after any further events short of the teardown the stored failure is still \<open>x\<close>, the
  evaluation of the component still throws \<open>x\<close>, and the bridge has received no call
  beyond those made before the failure. A newly mounted instance starts with no failure.
\<close>

theorem C5_failure_rethrown:
  "(alive (run (mount_component ps) es) \<and> rendered (run (mount_component ps) es)
     \<and> \<not> boundary_error (run (mount_component ps) es) \<and> truthy x \<and> Teardown \<notin> set es' \<longrightarrow>
       Canvas (props (run (step (run (mount_component ps) es) (ChildThrows x)) es'))
          (run (step (run (mount_component ps) es) (ChildThrows x)) es') = Inl x
       \<and> error (run (step (run (mount_component ps) es) (ChildThrows x)) es') = x
       \<and> alive (run (step (run (mount_component ps) es) (ChildThrows x)) es')
       \<and> calls (run (step (run (mount_component ps) es) (ChildThrows x)) es')
           = calls (run (mount_component ps) es))
   \<and> error (mount_component qs) = JBool False
   \<and> completes (mount_component qs)"
proof (intro conjI impI)
  let ?R = "run (mount_component ps) es"
  let ?F = "step ?R (ChildThrows x)"
  assume a: "alive ?R \<and> rendered ?R \<and> \<not> boundary_error ?R \<and> truthy x \<and> Teardown \<notin> set es'"
  have "wf_tree ?R"
    by (simp add: wf_run wf_mount_component)
  with a have c: "alive ?F \<and> boundary_error ?F \<and> \<not> block_shown ?F \<and> block ?F = JBool False
     \<and> error ?F = x \<and> calls ?F = calls ?R"
    by (intro caught_state) simp_all
  with a have r: "alive (run ?F es') \<and> block (run ?F es') = JBool False
     \<and> error (run ?F es') = x \<and> calls (run ?F es') = calls ?F"
    by (intro failed_run) simp_all
  from r show "error (run ?F es') = x" and "alive (run ?F es')"
    by simp_all
  from r c show "calls (run ?F es') = calls ?R"
    by simp
  from r a show "Canvas (props (run ?F es')) (run ?F es') = Inl x"
    by (simp add: Canvas_cases completes_def)
qed simp_all

theorem C5_witness:
  "alive example_mounted \<and> rendered example_mounted \<and> \<not> boundary_error example_mounted
   \<and> truthy (JObj 9)
   \<and> Teardown \<notin> set [Resize 640 480, SetProps example_dpr_props, Suspend, Intersection [True]]
   \<and> Canvas (props (step example_mounted (ChildThrows (JObj 9))))
        (step example_mounted (ChildThrows (JObj 9))) = Inl (JObj 9)
   \<and> Canvas
        (props (run (step example_mounted (ChildThrows (JObj 9)))
           [Resize 640 480, SetProps example_dpr_props, Suspend, Intersection [True]]))
        (run (step example_mounted (ChildThrows (JObj 9)))
           [Resize 640 480, SetProps example_dpr_props, Suspend, Intersection [True]])
       = Inl (JObj 9)
   \<and> calls (run (step example_mounted (ChildThrows (JObj 9)))
           [Resize 640 480, SetProps example_dpr_props, Suspend, Intersection [True]])
       = calls example_mounted"
  supply run_Cons [simp del] run_Nil [simp del] step.simps [simp del]
proof -
  have h: "alive example_mounted" "rendered example_mounted" "\<not> boundary_error example_mounted"
    "truthy (JObj 9)"
    "Teardown \<notin> set [Resize 640 480, SetProps example_dpr_props, Suspend, Intersection [True]]"
    "Teardown \<notin> set []"
    by code_simp+
  note t = C5_failure_rethrown [of example_props "[Resize 800 600]" "JObj 9",
      folded example_mounted_def]
  from h t [of "[]" example_props]
  have 1: "Canvas (props (run (step example_mounted (ChildThrows (JObj 9))) []))
        (run (step example_mounted (ChildThrows (JObj 9))) []) = Inl (JObj 9)"
    by blast
  from h t [of "[Resize 640 480, SetProps example_dpr_props, Suspend, Intersection [True]]"
      example_props]
  have 2: "Canvas
        (props (run (step example_mounted (ChildThrows (JObj 9)))
           [Resize 640 480, SetProps example_dpr_props, Suspend, Intersection [True]]))
        (run (step example_mounted (ChildThrows (JObj 9)))
           [Resize 640 480, SetProps example_dpr_props, Suspend, Intersection [True]])
       = Inl (JObj 9)"
    "calls (run (step example_mounted (ChildThrows (JObj 9)))
           [Resize 640 480, SetProps example_dpr_props, Suspend, Intersection [True]])
       = calls example_mounted"
    by blast+
  from h 1 2 show ?thesis
    by (simp add: run_Nil)
qed

end
